theory Spec2Isabelle
  imports Complex_Main
begin

section \<open>Support Vector Machine example for the speech data set (svm.cpp)\<close>

text \<open>
  The program loads two CSV files into fixed-size matrices, trains an OpenCV
  \<^verbatim>\<open>CvSVM\<close> on the first, classifies every row of the second and prints how many rows
  were classified correctly, how many wrongly, and a per-class count of the wrong ones.

  Conventions of the embedding.
  \<^item> A C \<^verbatim>\<open>float\<close> or \<^verbatim>\<open>double\<close> is the real number it denotes and arithmetic on it is
    exact. Infinities, NaN and rounding are outside the model; on the values the
    program is meant for (class labels \<open>1..26\<close>, which binary32 holds exactly, and
    their differences) exact arithmetic and binary32 arithmetic agree.
  \<^item> A \<^verbatim>\<open>cv::Mat\<close> of type \<^verbatim>\<open>CV_32FC1\<close> is the list of its rows. A \<^verbatim>\<open>Mat\<close> passed by value
    shares its buffer with the caller's, so \<^verbatim>\<open>read_data_from_csv\<close> returns the
    matrices it has written.
  \<^item> Undefined behaviour (an access outside a matrix or an array) is the value \<open>None\<close>.
  \<^item> The \<^verbatim>\<open>int\<close> counters are unbounded integers; they never exceed the number of test
    samples (lemma \<open>counters_bounded\<close>), so no machine addition wraps around.
  \<^item> Storage that the program reads before writing it (the local \<^verbatim>\<open>float tmp\<close>, freshly
    allocated matrices and arrays) starts with an arbitrary content that is an
    argument of the model.
  \<^item> The OpenCV classifier is not part of the repository: its operations are the
    fields of a record that is an argument of \<open>main\<close>. For the one claim that is about
    what training does, a model of these operations follows the specification.
  \<^item> A file system is a map from path names to file contents; \<^verbatim>\<open>fopen\<close> fails on a
    path outside its domain. What the program does to the outside world is a list of
    events; \<^verbatim>\<open>printf\<close> calls that print fixed banners only are left out.
\<close>

subsection \<open>Compile-time constants\<close>

definition USE_OPENCV_GRID_SEARCH_AUTOTRAIN :: int where
  "USE_OPENCV_GRID_SEARCH_AUTOTRAIN = 1"

definition NUMBER_OF_TRAINING_SAMPLES :: nat where
  "NUMBER_OF_TRAINING_SAMPLES = 6238"

definition ATTRIBUTES_PER_SAMPLE :: nat where
  "ATTRIBUTES_PER_SAMPLE = 617"

definition NUMBER_OF_TESTING_SAMPLES :: nat where
  "NUMBER_OF_TESTING_SAMPLES = 1559"

definition NUMBER_OF_CLASSES :: nat where
  "NUMBER_OF_CLASSES = 26"

text \<open>\<^verbatim>\<open>FLT_EPSILON\<close> of \<^verbatim>\<open><float.h>\<close> for binary32: \<open>2\<^sup>-\<^sup>2\<^sup>3\<close>.\<close>

definition FLT_EPSILON :: real where
  "FLT_EPSILON = 1 / 2 ^ 23"

subsection \<open>Matrices\<close>

type_synonym Mat = "real list list"

text \<open>\<^verbatim>\<open>Mat(rows, cols, CV_32FC1)\<close> allocates without initialising: \<open>mem\<close> is what the
  allocation happens to hold.\<close>

definition Mat_new :: "nat \<Rightarrow> nat \<Rightarrow> (nat \<Rightarrow> nat \<Rightarrow> real) \<Rightarrow> Mat" where
  "Mat_new rows cols mem = map (\<lambda>i. map (\<lambda>j. mem i j) [0..<cols]) [0..<rows]"

definition mat_dims :: "Mat \<Rightarrow> nat \<Rightarrow> nat \<Rightarrow> bool" where
  "mat_dims m rows cols \<longleftrightarrow> length m = rows \<and> list_all (\<lambda>r. length r = cols) m"

text \<open>\<^verbatim>\<open>m.at<float>(i, j)\<close> as an rvalue, \<^verbatim>\<open>m.at<float>(i, j) = v\<close> and \<^verbatim>\<open>m.row(i)\<close>.\<close>

definition at_get :: "Mat \<Rightarrow> nat \<Rightarrow> nat \<Rightarrow> real option" where
  "at_get m i j = (if i < length m \<and> j < length (m ! i) then Some (m ! i ! j) else None)"

definition at_put :: "Mat \<Rightarrow> nat \<Rightarrow> nat \<Rightarrow> real \<Rightarrow> Mat option" where
  "at_put m i j v =
     (if i < length m \<and> j < length (m ! i) then Some (m[i := (m ! i)[j := v]]) else None)"

definition row :: "Mat \<Rightarrow> nat \<Rightarrow> real list option" where
  "row m i = (if i < length m then Some (m ! i) else None)"

subsection \<open>The \<^verbatim>\<open>%f,\<close> directive of \<^verbatim>\<open>fscanf\<close>\<close>

text \<open>
  A stream is the list of characters not yet read. The conversion \<^verbatim>\<open>%f\<close> skips white
  space, then takes the longest sequence of characters that is a decimal floating
  constant or a prefix of one: an optional sign, digits with an optional radix point,
  and an exponent part if a digit came before it. The sequence is consumed; it converts
  if it has a digit in the mantissa and, where an exponent part was begun, a digit in
  the exponent. (The hexadecimal, infinity and NaN spellings that the C library also
  accepts are outside the model.)
\<close>

definition isspace :: "char \<Rightarrow> bool" where
  "isspace c \<longleftrightarrow> c = CHR '' '' \<or> (9 \<le> (of_char c :: nat) \<and> (of_char c :: nat) \<le> 13)"

definition isdigit :: "char \<Rightarrow> bool" where
  "isdigit c \<longleftrightarrow> 48 \<le> (of_char c :: nat) \<and> (of_char c :: nat) \<le> 57"

definition digit_val :: "char \<Rightarrow> nat" where
  "digit_val c = of_char c - 48"

definition decimal :: "string \<Rightarrow> nat" where
  "decimal ds = foldl (\<lambda>a c. 10 * a + digit_val c) 0 ds"

definition scan_sign :: "string \<Rightarrow> bool \<times> string" where
  "scan_sign s = (case s of
      [] \<Rightarrow> (False, s)
    | c # r \<Rightarrow> if c = CHR ''-'' then (True, r) else if c = CHR ''+'' then (False, r) else (False, s))"

definition scan_digits :: "string \<Rightarrow> string \<times> string" where
  "scan_digits s = (takeWhile isdigit s, dropWhile isdigit s)"

definition scan_fraction :: "string \<Rightarrow> string \<times> string" where
  "scan_fraction s = (case s of
      [] \<Rightarrow> ([], s)
    | c # r \<Rightarrow> if c = CHR ''.'' then scan_digits r else ([], s))"

definition conv_f :: "string \<Rightarrow> real option \<times> string" where
  "conv_f s0 =
    (let s1 = dropWhile isspace s0;
         (neg, s2) = scan_sign s1;
         (ip, s3) = scan_digits s2;
         (fp, s4) = scan_fraction s3
     in if ip = [] \<and> fp = [] then (None, s4)
        else
          let m = real (decimal (ip @ fp)) / 10 ^ length fp;
              v = (if neg then - m else m)
          in case s4 of
               [] \<Rightarrow> (Some v, s4)
             | c # r \<Rightarrow>
                 if c = CHR ''e'' \<or> c = CHR ''E'' then
                   (let (eneg, s5) = scan_sign r;
                        (ed, s6) = scan_digits s5
                    in if ed = [] then (None, s6)
                       else (Some (if eneg then v / 10 ^ decimal ed else v * 10 ^ decimal ed), s6))
                 else (Some v, s4))"

text \<open>
  \<^verbatim>\<open>fscanf(f, "%f,", &tmp)\<close>: when the conversion fails the call returns at once and
  \<^verbatim>\<open>tmp\<close> keeps its value; when it succeeds \<^verbatim>\<open>tmp\<close> is assigned and a following comma
  is consumed. The program ignores the value that \<^verbatim>\<open>fscanf\<close> returns.
\<close>

definition fscanf_f :: "string \<Rightarrow> real \<Rightarrow> string \<times> real" where
  "fscanf_f s tmp =
     (case conv_f s of
        (None, s') \<Rightarrow> (s', tmp)
      | (Some v, s') \<Rightarrow>
          (case s' of
             [] \<Rightarrow> (s', v)
           | c # r \<Rightarrow> if c = CHR '','' then (r, v) else (s', v)))"

subsection \<open>Classifier parameters and events\<close>

text \<open>\<^verbatim>\<open>CvSVMParams\<close> with the enumerations of its first two fields, and what the program
  does to the outside world: it opens and closes files, calls the trainer, and prints.\<close>

datatype svm_type = C_SVC | NU_SVC | ONE_CLASS | EPS_SVR | NU_SVR

datatype kernel_type = LINEAR | POLY | RBF | SIGMOID

record CvTermCriteria =
  tc_type :: int
  tc_max_iter :: int
  tc_epsilon :: real

record CvSVMParams =
  p_svm_type :: svm_type
  p_kernel_type :: kernel_type
  p_degree :: real
  p_gamma :: real
  p_coef0 :: real
  p_C :: real
  p_nu :: real
  p_p :: real
  p_class_weights :: "real list option"
  p_term_crit :: CvTermCriteria

datatype event =
    Fopen string bool
  | Fclose string
  | Print_error string
  | Train_auto Mat Mat CvSVMParams int
  | Train Mat Mat CvSVMParams
  | Print_params CvSVMParams
  | Print_support_vectors int
  | Print_results int real int real
  | Print_class char int real

subsection \<open>\<^verbatim>\<open>read_data_from_csv\<close>\<close>

text \<open>The variables of \<^verbatim>\<open>read_data_from_csv\<close> that its loops change: the stream behind
  \<^verbatim>\<open>f\<close>, \<^verbatim>\<open>tmp\<close>, and the two matrices.\<close>

record reader =
  rd_f :: string
  rd_tmp :: real
  rd_data :: Mat
  rd_classes :: Mat

function attribute_loop :: "nat \<Rightarrow> nat \<Rightarrow> reader \<Rightarrow> reader option" where
  "attribute_loop line attribute st =
     (if attribute < ATTRIBUTES_PER_SAMPLE + 1 then
        (if attribute < ATTRIBUTES_PER_SAMPLE then
           (case fscanf_f (rd_f st) (rd_tmp st) of (s, t) \<Rightarrow>
              (case at_put (rd_data st) line attribute t of
                 None \<Rightarrow> None
               | Some d \<Rightarrow>
                   attribute_loop line (Suc attribute) (st\<lparr>rd_f := s, rd_tmp := t, rd_data := d\<rparr>)))
         else if attribute = ATTRIBUTES_PER_SAMPLE then
           (case fscanf_f (rd_f st) (rd_tmp st) of (s, t) \<Rightarrow>
              (case at_put (rd_classes st) line 0 t of
                 None \<Rightarrow> None
               | Some c \<Rightarrow>
                   attribute_loop line (Suc attribute) (st\<lparr>rd_f := s, rd_tmp := t, rd_classes := c\<rparr>)))
         else attribute_loop line (Suc attribute) st)
      else Some st)"
  by pat_completeness auto
termination
  by (relation "measure (\<lambda>(line, attribute, st). ATTRIBUTES_PER_SAMPLE + 1 - attribute)") auto

declare attribute_loop.simps [simp del]

function line_loop :: "int \<Rightarrow> nat \<Rightarrow> reader \<Rightarrow> reader option" where
  "line_loop n_samples line st =
     (if int line < n_samples then
        (case attribute_loop line 0 st of
           None \<Rightarrow> None
         | Some st' \<Rightarrow> line_loop n_samples (Suc line) st')
      else Some st)"
  by pat_completeness auto
termination
  by (relation "measure (\<lambda>(n_samples, line, st). nat (n_samples - int line))") auto

declare line_loop.simps [simp del]

text \<open>The result is the returned \<^verbatim>\<open>int\<close>, the two matrices as the call leaves them, and
  the events of the call. \<open>tmp0\<close> is what \<^verbatim>\<open>tmp\<close> holds before its first assignment.\<close>

definition read_data_from_csv ::
  "(string \<rightharpoonup> string) \<Rightarrow> string \<Rightarrow> Mat \<Rightarrow> Mat \<Rightarrow> int \<Rightarrow> real \<Rightarrow> (int \<times> Mat \<times> Mat \<times> event list) option"
where
  "read_data_from_csv fs filename data classes n_samples tmp0 =
     (case fs filename of
        None \<Rightarrow> Some (0, data, classes, [Fopen filename False, Print_error filename])
      | Some content \<Rightarrow>
          (case line_loop n_samples 0 \<lparr>rd_f = content, rd_tmp = tmp0, rd_data = data, rd_classes = classes\<rparr> of
             None \<Rightarrow> None
           | Some st \<Rightarrow>
               Some (1, rd_data st, rd_classes st, [Fopen filename True, Fclose filename])))"

subsection \<open>The classifier library\<close>

text \<open>The operations of \<^verbatim>\<open>CvSVM\<close> that the program calls, over a type \<open>'m\<close> of trained
  classifiers.\<close>

record 'm CvSVM =
  train_auto :: "Mat \<Rightarrow> Mat \<Rightarrow> CvSVMParams \<Rightarrow> int \<Rightarrow> 'm"
  train :: "Mat \<Rightarrow> Mat \<Rightarrow> CvSVMParams \<Rightarrow> 'm"
  get_params :: "'m \<Rightarrow> CvSVMParams"
  get_support_vector_count :: "'m \<Rightarrow> int"
  predict :: "'m \<Rightarrow> real list \<Rightarrow> real"

subsection \<open>The evaluation loop of \<^verbatim>\<open>main\<close>\<close>

record tally =
  correct_class :: int
  wrong_class :: int
  false_positives :: "int list"

text \<open>Conversion of a floating value to \<^verbatim>\<open>int\<close> discards the fractional part.\<close>

definition trunc_int :: "real \<Rightarrow> int" where
  "trunc_int x = (if 0 \<le> x then \<lfloor>x\<rfloor> else \<lceil>x\<rceil>)"

text \<open>\<^verbatim>\<open>false_positives[(int) (label - 1)]++\<close> on an array of \<^verbatim>\<open>NUMBER_OF_CLASSES\<close> elements.\<close>

definition false_positive_incr :: "int list \<Rightarrow> real \<Rightarrow> int list option" where
  "false_positive_incr fp label =
     (let i = trunc_int (label - 1)
      in if 0 \<le> i \<and> i < int NUMBER_OF_CLASSES \<and> nat i < length fp
         then Some (fp[nat i := fp ! nat i + 1])
         else None)"

text \<open>The body of the loop over \<^verbatim>\<open>tsample\<close>.\<close>

definition test_sample ::
  "'m CvSVM \<Rightarrow> 'm \<Rightarrow> Mat \<Rightarrow> Mat \<Rightarrow> nat \<Rightarrow> tally \<Rightarrow> tally option"
where
  "test_sample svm model testing_data testing_classifications tsample st =
     (case row testing_data tsample of
        None \<Rightarrow> None
      | Some sample \<Rightarrow>
          (let result = predict svm model sample
           in case at_get testing_classifications tsample 0 of
                None \<Rightarrow> None
              | Some label \<Rightarrow>
                  if \<bar>result - label\<bar> \<ge> FLT_EPSILON then
                    (case false_positive_incr (false_positives st) label of
                       None \<Rightarrow> None
                     | Some fp \<Rightarrow>
                         Some (st\<lparr>wrong_class := wrong_class st + 1, false_positives := fp\<rparr>))
                  else Some (st\<lparr>correct_class := correct_class st + 1\<rparr>)))"

text \<open>The loop itself, from \<open>tsample\<close> up to the bound \<open>n\<close>; \<open>main\<close> runs it from \<open>0\<close> to
  \<open>NUMBER_OF_TESTING_SAMPLES\<close>.\<close>

function testing_loop ::
  "'m CvSVM \<Rightarrow> 'm \<Rightarrow> Mat \<Rightarrow> Mat \<Rightarrow> nat \<Rightarrow> nat \<Rightarrow> tally \<Rightarrow> tally option"
where
  "testing_loop svm model testing_data testing_classifications n tsample st =
     (if tsample < n then
        (case test_sample svm model testing_data testing_classifications tsample st of
           None \<Rightarrow> None
         | Some st' \<Rightarrow> testing_loop svm model testing_data testing_classifications n (Suc tsample) st')
      else Some st)"
  by pat_completeness auto
termination
  by (relation "measure (\<lambda>(svm, model, td, tc, n, tsample, st). n - tsample)") auto

declare testing_loop.simps [simp del]

text \<open>The loop that zeroes the counters and fills the table of class letters.\<close>

function zero_loop :: "nat \<Rightarrow> int list \<times> char list \<Rightarrow> int list \<times> char list" where
  "zero_loop i (fp, cl) =
     (if i < NUMBER_OF_CLASSES
      then zero_loop (Suc i) (fp[i := 0], cl[i := char_of (65 + i)])
      else (fp, cl))"
  by pat_completeness auto
termination
  by (relation "measure (\<lambda>(i, a). NUMBER_OF_CLASSES - i)") auto

declare zero_loop.simps [simp del]

subsection \<open>The report\<close>

text \<open>\<^verbatim>\<open>(double) count*100/NUMBER_OF_TESTING_SAMPLES\<close>\<close>

definition percentage :: "int \<Rightarrow> real" where
  "percentage count = real_of_int count * 100 / real NUMBER_OF_TESTING_SAMPLES"

definition report :: "tally \<Rightarrow> char list \<Rightarrow> event list" where
  "report st class_labels =
     Print_results (correct_class st) (percentage (correct_class st))
                   (wrong_class st) (percentage (wrong_class st))
     # map (\<lambda>i. Print_class (class_labels ! i) (false_positives st ! i)
                              (percentage (false_positives st ! i)))
           [0..<NUMBER_OF_CLASSES]"

subsection \<open>\<^verbatim>\<open>main\<close>\<close>

text \<open>What the storage of \<open>main\<close> holds before the program writes it.\<close>

record indeterminate =
  u_training_data :: "nat \<Rightarrow> nat \<Rightarrow> real"
  u_training_classifications :: "nat \<Rightarrow> nat \<Rightarrow> real"
  u_testing_data :: "nat \<Rightarrow> nat \<Rightarrow> real"
  u_testing_classifications :: "nat \<Rightarrow> nat \<Rightarrow> real"
  u_tmp_training :: real
  u_tmp_testing :: real
  u_false_positives :: "nat \<Rightarrow> int"
  u_class_labels :: "nat \<Rightarrow> char"

definition default_params :: CvSVMParams where
  "default_params =
     \<lparr>p_svm_type = C_SVC, p_kernel_type = LINEAR, p_degree = 0, p_gamma = 0, p_coef0 = 0,
      p_C = 10, p_nu = 0, p_p = 0, p_class_weights = None,
      p_term_crit = \<lparr>tc_type = 1 + 2, tc_max_iter = 1000, tc_epsilon = 1 / 1000000\<rparr>\<rparr>"

text \<open>The counters as the evaluation loop finds them: \<^verbatim>\<open>correct_class\<close> and
  \<^verbatim>\<open>wrong_class\<close> initialised to \<open>0\<close>, the two arrays after the zeroing loop.\<close>

definition initial_counters :: "indeterminate \<Rightarrow> int list \<times> char list" where
  "initial_counters u =
     zero_loop 0 (map (u_false_positives u) [0..<NUMBER_OF_CLASSES],
                  map (u_class_labels u) [0..<NUMBER_OF_CLASSES])"

definition initial_tally :: "indeterminate \<Rightarrow> tally" where
  "initial_tally u =
     \<lparr>correct_class = 0, wrong_class = 0, false_positives = fst (initial_counters u)\<rparr>"

text \<open>Everything after the two files have been read.\<close>

definition train_and_test ::
  "'m CvSVM \<Rightarrow> indeterminate \<Rightarrow> Mat \<Rightarrow> Mat \<Rightarrow> Mat \<Rightarrow> Mat \<Rightarrow> (int \<times> event list) option"
where
  "train_and_test svm u training_data training_classifications testing_data testing_classifications =
     (let params = default_params;
          (model, ev_train) =
            (if USE_OPENCV_GRID_SEARCH_AUTOTRAIN \<noteq> 0 then
               (let m = train_auto svm training_data training_classifications params 10
                in (m, [Train_auto training_data training_classifications params 10,
                        Print_params (get_params svm m)]))
             else
               (train svm training_data training_classifications params,
                [Train training_data training_classifications params]));
          ev_sv = [Print_support_vectors (get_support_vector_count svm model)];
          class_labels = snd (initial_counters u)
      in case testing_loop svm model testing_data testing_classifications
                NUMBER_OF_TESTING_SAMPLES 0 (initial_tally u) of
           None \<Rightarrow> None
         | Some st \<Rightarrow> Some (0, ev_train @ ev_sv @ report st class_labels))"

text \<open>\<open>main\<close> called with both arguments, \<^verbatim>\<open>argv[1]\<close> and \<^verbatim>\<open>argv[2]\<close>: the value it returns and
  its events. The second file is read only if reading the first returned non-zero
  (\<^verbatim>\<open>&&\<close>).\<close>

definition main ::
  "'m CvSVM \<Rightarrow> (string \<rightharpoonup> string) \<Rightarrow> indeterminate \<Rightarrow> string \<Rightarrow> string \<Rightarrow> (int \<times> event list) option"
where
  "main svm fs u argv1 argv2 =
     (let training_data = Mat_new NUMBER_OF_TRAINING_SAMPLES ATTRIBUTES_PER_SAMPLE (u_training_data u);
          training_classifications = Mat_new NUMBER_OF_TRAINING_SAMPLES 1 (u_training_classifications u);
          testing_data = Mat_new NUMBER_OF_TESTING_SAMPLES ATTRIBUTES_PER_SAMPLE (u_testing_data u);
          testing_classifications = Mat_new NUMBER_OF_TESTING_SAMPLES 1 (u_testing_classifications u)
      in case read_data_from_csv fs argv1 training_data training_classifications
                (int NUMBER_OF_TRAINING_SAMPLES) (u_tmp_training u) of
           None \<Rightarrow> None
         | Some (r1, training_data, training_classifications, ev1) \<Rightarrow>
             if r1 = 0 then Some (- 1, ev1)
             else
               (case read_data_from_csv fs argv2 testing_data testing_classifications
                       (int NUMBER_OF_TESTING_SAMPLES) (u_tmp_testing u) of
                  None \<Rightarrow> None
                | Some (r2, testing_data, testing_classifications, ev2) \<Rightarrow>
                    if r2 = 0 then Some (- 1, ev1 @ ev2)
                    else
                      (case train_and_test svm u training_data training_classifications
                              testing_data testing_classifications of
                         None \<Rightarrow> None
                       | Some (r, ev) \<Rightarrow> Some (r, ev1 @ ev2 @ ev))))"

subsection \<open>Invariant of the loader\<close>

text \<open>The two matrices keep the dimensions \<open>main\<close> allocates them with: \<open>n\<close> rows of
  \<open>ATTRIBUTES_PER_SAMPLE\<close> columns and \<open>n\<close> rows of one column.\<close>

definition reader_ok :: "nat \<Rightarrow> reader \<Rightarrow> bool" where
  "reader_ok n st \<longleftrightarrow>
     mat_dims (rd_data st) n ATTRIBUTES_PER_SAMPLE \<and> mat_dims (rd_classes st) n 1"

subsection \<open>Sequences of conversions\<close>

text \<open>What \<open>k\<close> successive calls \<^verbatim>\<open>fscanf(f, "%f,", &tmp)\<close> do from the stream \<open>s\<close> and the value
  \<open>t\<close> of \<^verbatim>\<open>tmp\<close>: the values of \<^verbatim>\<open>tmp\<close> after each call, and the stream and \<^verbatim>\<open>tmp\<close> after the
  last one. \<open>scan_rows\<close> groups the values in rows of \<open>ATTRIBUTES_PER_SAMPLE + 1\<close>. These
  functions describe the loader in the lemmas below; the loader itself is
  \<open>attribute_loop\<close> and \<open>line_loop\<close>.\<close>

fun scan_values :: "nat \<Rightarrow> string \<Rightarrow> real \<Rightarrow> real list" where
  "scan_values 0 s t = []"
| "scan_values (Suc k) s t = (case fscanf_f s t of (s', t') \<Rightarrow> t' # scan_values k s' t')"

fun scan_final :: "nat \<Rightarrow> string \<Rightarrow> real \<Rightarrow> string \<times> real" where
  "scan_final 0 s t = (s, t)"
| "scan_final (Suc k) s t = (case fscanf_f s t of (s', t') \<Rightarrow> scan_final k s' t')"

fun scan_rows :: "nat \<Rightarrow> string \<Rightarrow> real \<Rightarrow> real list list" where
  "scan_rows 0 s t = []"
| "scan_rows (Suc k) s t =
     scan_values (ATTRIBUTES_PER_SAMPLE + 1) s t
     # (case scan_final (ATTRIBUTES_PER_SAMPLE + 1) s t of (s', t') \<Rightarrow> scan_rows k s' t')"

subsection \<open>The dataset file format\<close>

text \<open>
  A decimal floating-point token: an optional sign, digits, an optional radix point with
  digits after it, and an optional exponent part (the letter, an optional sign, digits).
  \<open>token_text\<close> is its spelling and \<open>token_value\<close> the number it denotes.
\<close>

datatype sign = No_sign | Plus | Minus

record number_token =
  tk_sign :: sign
  tk_int :: string
  tk_frac :: "string option"
  tk_exp :: "(char \<times> sign \<times> string) option"

definition sign_text :: "sign \<Rightarrow> string" where
  "sign_text s = (case s of No_sign \<Rightarrow> [] | Plus \<Rightarrow> ''+'' | Minus \<Rightarrow> ''-'')"

definition frac_text :: "string option \<Rightarrow> string" where
  "frac_text f = (case f of None \<Rightarrow> [] | Some ds \<Rightarrow> CHR ''.'' # ds)"

definition exp_text :: "(char \<times> sign \<times> string) option \<Rightarrow> string" where
  "exp_text x = (case x of None \<Rightarrow> [] | Some (e, s, ds) \<Rightarrow> e # sign_text s @ ds)"

definition token_text :: "number_token \<Rightarrow> string" where
  "token_text t = sign_text (tk_sign t) @ tk_int t @ frac_text (tk_frac t) @ exp_text (tk_exp t)"

definition well_formed :: "number_token \<Rightarrow> bool" where
  "well_formed t \<longleftrightarrow>
     list_all isdigit (tk_int t)
     \<and> (case tk_frac t of
          None \<Rightarrow> tk_int t \<noteq> []
        | Some ds \<Rightarrow> list_all isdigit ds \<and> tk_int t @ ds \<noteq> [])
     \<and> (case tk_exp t of
          None \<Rightarrow> True
        | Some (e, s, ds) \<Rightarrow> (e = CHR ''e'' \<or> e = CHR ''E'') \<and> ds \<noteq> [] \<and> list_all isdigit ds)"

definition token_value :: "number_token \<Rightarrow> real" where
  "token_value t =
     (let ds = (case tk_frac t of None \<Rightarrow> [] | Some ds \<Rightarrow> ds);
          m = real (decimal (tk_int t @ ds)) / 10 ^ length ds;
          v = (if tk_sign t = Minus then - m else m)
      in case tk_exp t of
           None \<Rightarrow> v
         | Some (e, s, ds) \<Rightarrow> if s = Minus then v / 10 ^ decimal ds else v * 10 ^ decimal ds)"

text \<open>
  A line of the file: \<open>ATTRIBUTES_PER_SAMPLE\<close> feature tokens and one label token, each
  followed by a comma, then a newline. A file is the concatenation of its lines. It
  conforms to the format for \<open>n\<close> rows if it has \<open>n\<close> lines, each with
  \<open>ATTRIBUTES_PER_SAMPLE\<close> well-formed feature tokens and a well-formed label token that
  denotes one of \<open>1..NUMBER_OF_CLASSES\<close>.
\<close>

record csv_row =
  row_features :: "number_token list"
  row_label :: number_token

definition row_text :: "csv_row \<Rightarrow> string" where
  "row_text r =
     concat (map (\<lambda>t. token_text t @ '','') (row_features r @ [row_label r])) @ [CHR 0x0A]"

definition file_text :: "csv_row list \<Rightarrow> string" where
  "file_text rows = concat (map row_text rows)"

definition conforming :: "nat \<Rightarrow> csv_row list \<Rightarrow> bool" where
  "conforming n rows \<longleftrightarrow>
     length rows = n
     \<and> list_all (\<lambda>r. length (row_features r) = ATTRIBUTES_PER_SAMPLE
                     \<and> list_all well_formed (row_features r)
                     \<and> well_formed (row_label r)
                     \<and> (\<exists>c\<in>{1..NUMBER_OF_CLASSES}. token_value (row_label r) = real c)) rows"

subsection \<open>The trainer, from the specification\<close>

text \<open>
  Modelled from the spec: the training operations of the classifier library, OpenCV's
  \<^verbatim>\<open>CvSVM::train_auto\<close>, \<^verbatim>\<open>train\<close>, \<^verbatim>\<open>get_params\<close> and \<^verbatim>\<open>get_support_vector_count\<close>, which
  \<open>main\<close> calls and the repository does not contain. The specification (sections 3, 4.2
  and 6, and the glossary) says: the margin optimiser is an external capability that
  trains a model from features, labels and a configuration, and predicts a label from
  a model and a feature vector; a support vector is a training sample that determines
  the decision boundary, and a trained model exposes how many it has; in grid-search
  mode the trainer runs k-fold cross-validation over a predefined grid of \<open>C\<close> values with
  the kernel and its parameters held fixed: for each grid point it partitions the
  training set into k folds, trains on k - 1 folds, evaluates the misclassification
  rate on the held-out fold, averages over the folds, and selects the grid point with
  the lowest average error; it then retrains once on the full training set with the
  winning value, and the effective configuration reflects the winning values.

  Here the optimiser is a record of three functions, the grid a list, fold \<open>j\<close> the
  samples at the positions congruent to \<open>j\<close> modulo \<open>k\<close>, and the first grid point with
  the lowest error wins. A trained classifier is the optimiser's model together with
  the effective configuration.
\<close>

record 'm optimizer =
  fit :: "Mat \<Rightarrow> Mat \<Rightarrow> CvSVMParams \<Rightarrow> 'm"
  classify :: "'m \<Rightarrow> real list \<Rightarrow> real"
  support_vectors :: "'m \<Rightarrow> real list list"

definition held_out :: "nat \<Rightarrow> nat \<Rightarrow> 'a list \<Rightarrow> 'a list" where
  "held_out k j xs = map snd (filter (\<lambda>(i, x). i mod k = j) (zip [0..<length xs] xs))"

definition kept :: "nat \<Rightarrow> nat \<Rightarrow> 'a list \<Rightarrow> 'a list" where
  "kept k j xs = map snd (filter (\<lambda>(i, x). i mod k \<noteq> j) (zip [0..<length xs] xs))"

definition misclassification_rate :: "'m optimizer \<Rightarrow> 'm \<Rightarrow> Mat \<Rightarrow> Mat \<Rightarrow> real" where
  "misclassification_rate opt m features labels =
     real (length (filter (\<lambda>(x, y). y \<noteq> [classify opt m x]) (zip features labels)))
     / real (length features)"

definition cv_error :: "'m optimizer \<Rightarrow> nat \<Rightarrow> Mat \<Rightarrow> Mat \<Rightarrow> CvSVMParams \<Rightarrow> real" where
  "cv_error opt k features labels config =
     (\<Sum>j\<leftarrow>[0..<k]. misclassification_rate opt
                       (fit opt (kept k j features) (kept k j labels) config)
                       (held_out k j features) (held_out k j labels))
     / real k"

definition cross_validate_train ::
  "'m optimizer \<Rightarrow> real list \<Rightarrow> Mat \<Rightarrow> Mat \<Rightarrow> CvSVMParams \<Rightarrow> int \<Rightarrow> 'm \<times> CvSVMParams"
where
  "cross_validate_train opt C_grid features labels config folds =
     (let effective =
            (if C_grid = [] then config
             else config\<lparr>p_C :=
                    arg_min_list (\<lambda>c. cv_error opt (nat folds) features labels (config\<lparr>p_C := c\<rparr>))
                      C_grid\<rparr>)
      in (fit opt features labels effective, effective))"

definition spec_CvSVM :: "'m optimizer \<Rightarrow> real list \<Rightarrow> ('m \<times> CvSVMParams) CvSVM" where
  "spec_CvSVM opt C_grid =
     \<lparr>train_auto = cross_validate_train opt C_grid,
      train = (\<lambda>features labels config. (fit opt features labels config, config)),
      get_params = snd,
      get_support_vector_count = (\<lambda>m. int (length (support_vectors opt (fst m)))),
      predict = (\<lambda>m. classify opt (fst m))\<rparr>"

subsection \<open>The counts a run prints\<close>

text \<open>The counts in the report of a run, in the order printed: \<^verbatim>\<open>correct_class\<close>,
  \<^verbatim>\<open>wrong_class\<close>, then \<^verbatim>\<open>false_positives[i]\<close> for each class.\<close>

fun printed_counts :: "event list \<Rightarrow> int list" where
  "printed_counts [] = []"
| "printed_counts (Print_results c pc w pw # ev) = c # w # printed_counts ev"
| "printed_counts (Print_class l n pn # ev) = n # printed_counts ev"
| "printed_counts (e # ev) = printed_counts ev"

subsection \<open>Concrete inputs\<close>

text \<open>A classifier library whose prediction is the constant \<open>r\<close>, over a one-element type
  of trained classifiers.\<close>

definition svm_const :: "real \<Rightarrow> unit CvSVM" where
  "svm_const r =
     \<lparr>train_auto = (\<lambda>d c p k. ()), train = (\<lambda>d c p. ()), get_params = (\<lambda>m. default_params),
      get_support_vector_count = (\<lambda>m. 0), predict = (\<lambda>m s. r)\<rparr>"

text \<open>Storage that holds zeros (and the letter \<open>?\<close>) before the program writes it, but for
  the two \<^verbatim>\<open>tmp\<close> variables, which hold \<open>a\<close> and \<open>b\<close>.\<close>

definition indet :: "real \<Rightarrow> real \<Rightarrow> indeterminate" where
  "indet a b =
     \<lparr>u_training_data = (\<lambda>i j. 0), u_training_classifications = (\<lambda>i j. 0),
      u_testing_data = (\<lambda>i j. 0), u_testing_classifications = (\<lambda>i j. 0),
      u_tmp_training = a, u_tmp_testing = b,
      u_false_positives = (\<lambda>i. 0), u_class_labels = (\<lambda>i. CHR ''?'')\<rparr>"




text \<open>An optimiser whose models are trivial: every sample is classified as \<open>r\<close> and the
  training set's first sample is the only support vector.\<close>

definition opt_const :: "real \<Rightarrow> unit optimizer" where
  "opt_const r = \<lparr>fit = (\<lambda>d c p. ()), classify = (\<lambda>m s. r), support_vectors = (\<lambda>m. [[0]])\<rparr>"

section \<open>The evaluation loop\<close>

lemma sum_list_incr:
  "i < length xs \<Longrightarrow> sum_list (xs[i := xs ! i + 1]) = sum_list xs + (1::int)"
proof (induction xs arbitrary: i)
  case Nil
  then show ?case by simp
next
  case (Cons x xs)
  then show ?case by (cases i) simp_all
qed

lemma trunc_int_bounds:
  assumes "0 < n"
  shows "0 \<le> trunc_int x \<and> trunc_int x < int n \<longleftrightarrow> - 1 < x \<and> x < real n"
proof (cases "0 \<le> x")
  case True
  then have "trunc_int x = \<lfloor>x\<rfloor>" by (simp add: trunc_int_def)
  moreover have "0 \<le> \<lfloor>x\<rfloor>" using True by simp
  moreover have "\<lfloor>x\<rfloor> < int n \<longleftrightarrow> x < real n" by (simp add: floor_less_iff)
  ultimately show ?thesis using True by simp
next
  case False
  then have t: "trunc_int x = \<lceil>x\<rceil>" by (simp add: trunc_int_def)
  have "\<lceil>x\<rceil> \<le> 0" using False by (simp add: ceiling_le_iff)
  then have "\<lceil>x\<rceil> < int n" using assms by linarith
  moreover have "0 \<le> \<lceil>x\<rceil> \<longleftrightarrow> - 1 < x" by (simp add: le_ceiling_iff)
  ultimately show ?thesis using False assms t by simp
qed

lemma trunc_int_of_int: "trunc_int (of_int c - 1) = c - 1"
proof -
  have "(of_int c - 1 :: real) = of_int (c - 1)" by simp
  then show ?thesis unfolding trunc_int_def by (simp only: floor_of_int ceiling_of_int if_cancel)
qed

lemma false_positive_incr_Some_iff:
  assumes "length fp = NUMBER_OF_CLASSES"
  shows "(\<exists>fp'. false_positive_incr fp l = Some fp') \<longleftrightarrow> 0 < l \<and> l < real NUMBER_OF_CLASSES + 1"
proof -
  have "0 < NUMBER_OF_CLASSES" by (simp add: NUMBER_OF_CLASSES_def)
  from trunc_int_bounds [OF this, of "l - 1"]
  have "0 \<le> trunc_int (l - 1) \<and> trunc_int (l - 1) < int NUMBER_OF_CLASSES
          \<longleftrightarrow> 0 < l \<and> l < real NUMBER_OF_CLASSES + 1" by auto
  then show ?thesis
    using assms unfolding false_positive_incr_def Let_def by (auto simp: nat_less_iff)
qed

lemma false_positive_incr_sum:
  "false_positive_incr fp l = Some fp' \<Longrightarrow>
   length fp' = length fp \<and> sum_list fp' = sum_list fp + 1"
  unfolding false_positive_incr_def Let_def
  by (auto split: if_splits simp: sum_list_incr)

lemma test_sample_step:
  assumes "test_sample svm model td tc k st = Some st'"
  shows "correct_class st' + wrong_class st' = correct_class st + wrong_class st + 1
       \<and> sum_list (false_positives st') - wrong_class st' = sum_list (false_positives st) - wrong_class st
       \<and> length (false_positives st') = length (false_positives st)"
  using assms unfolding test_sample_def Let_def
  by (auto split: option.splits if_splits dest: false_positive_incr_sum)

lemma test_sample_total:
  assumes "k < length td" "at_get tc k 0 = Some l" "0 < l" "l < real NUMBER_OF_CLASSES + 1"
      "length (false_positives st) = NUMBER_OF_CLASSES"
  shows "\<exists>st'. test_sample svm model td tc k st = Some st'"
proof -
  obtain fp' where "false_positive_incr (false_positives st) l = Some fp'"
    using false_positive_incr_Some_iff [OF assms(5), of l] assms(3,4) by blast
  then show ?thesis
    using assms(1,2) unfolding test_sample_def Let_def row_def by simp
qed

lemma testing_loop_split:
  "k \<le> n \<Longrightarrow> j \<le> k \<Longrightarrow>
   testing_loop svm model td tc n j st =
     (case testing_loop svm model td tc k j st of None \<Rightarrow> None
      | Some st' \<Rightarrow> testing_loop svm model td tc n k st')"
proof (induction svm model td tc k j st rule: testing_loop.induct)
  case (1 svm model td tc k j st)
  show ?case
  proof (cases "j < k")
    case False
    with 1 have "j = k" by simp
    then show ?thesis by (subst (2) testing_loop.simps) simp
  next
    case True
    show ?thesis
    proof (cases "test_sample svm model td tc j st")
      case None
      have "testing_loop svm model td tc n j st = None"
        using True "1.prems" None by (subst testing_loop.simps) simp
      moreover have "testing_loop svm model td tc k j st = None"
        using True None by (subst testing_loop.simps) simp
      ultimately show ?thesis by simp
    next
      case (Some s1)
      have "testing_loop svm model td tc n j st = testing_loop svm model td tc n (Suc j) s1"
        using True "1.prems" Some by (subst testing_loop.simps) simp
      moreover have "testing_loop svm model td tc k j st = testing_loop svm model td tc k (Suc j) s1"
        using True Some by (subst testing_loop.simps) simp
      moreover have "testing_loop svm model td tc n (Suc j) s1 =
        (case testing_loop svm model td tc k (Suc j) s1 of None \<Rightarrow> None
         | Some st' \<Rightarrow> testing_loop svm model td tc n k st')"
        using "1.IH" [OF True Some "1.prems"(1)] True by simp
      ultimately show ?thesis by simp
    qed
  qed
qed

lemma testing_loop_inv:
  assumes "k \<le> length td"
    and "\<forall>i<k. \<exists>l. at_get tc i 0 = Some l \<and> 0 < l \<and> l < real NUMBER_OF_CLASSES + 1"
    and "length (false_positives st) = NUMBER_OF_CLASSES"
    and "j \<le> k"
  shows "\<exists>st'. testing_loop svm model td tc k j st = Some st'
      \<and> correct_class st' + wrong_class st' = correct_class st + wrong_class st + int (k - j)
      \<and> sum_list (false_positives st') - wrong_class st' = sum_list (false_positives st) - wrong_class st
      \<and> length (false_positives st') = NUMBER_OF_CLASSES"
  using assms
proof (induction svm model td tc k j st rule: testing_loop.induct)
  case (1 svm model td tc k j st)
  show ?case
  proof (cases "j < k")
    case False
    with 1 show ?thesis by (subst testing_loop.simps) simp
  next
    case True
    then obtain l where l: "at_get tc j 0 = Some l" "0 < l" "l < real NUMBER_OF_CLASSES + 1"
      using "1.prems"(2) by blast
    obtain st1 where st1: "test_sample svm model td tc j st = Some st1"
      using test_sample_total [OF _ l "1.prems"(3), of td svm model] True "1.prems"(1) by auto
    note step = test_sample_step [OF st1]
    have len1: "length (false_positives st1) = NUMBER_OF_CLASSES"
      using step "1.prems"(3) by simp
    obtain st' where st': "testing_loop svm model td tc k (Suc j) st1 = Some st'"
      "correct_class st' + wrong_class st' = correct_class st1 + wrong_class st1 + int (k - Suc j)"
      "sum_list (false_positives st') - wrong_class st' = sum_list (false_positives st1) - wrong_class st1"
      "length (false_positives st') = NUMBER_OF_CLASSES"
      using "1.IH" [OF True st1 "1.prems"(1,2) len1] True by auto
    have "testing_loop svm model td tc k j st = Some st'"
      using True st1 st'(1) by (subst testing_loop.simps) simp
    moreover have "int (k - j) = 1 + int (k - Suc j)" using True by simp
    ultimately show ?thesis using st' step by simp
  qed
qed

lemma zero_loop_result:
  "length fp = NUMBER_OF_CLASSES \<Longrightarrow> length cl = NUMBER_OF_CLASSES \<Longrightarrow> i \<le> NUMBER_OF_CLASSES \<Longrightarrow>
   zero_loop i (fp, cl) =
     (take i fp @ replicate (NUMBER_OF_CLASSES - i) 0,
      take i cl @ map (\<lambda>j. char_of (65 + j)) [i..<NUMBER_OF_CLASSES])"
proof (induction i "(fp, cl)" arbitrary: fp cl rule: zero_loop.induct)
  case (1 i fp cl)
  show ?case
  proof (cases "i < NUMBER_OF_CLASSES")
    case False
    with 1 show ?thesis by (subst zero_loop.simps) simp
  next
    case True
    have "zero_loop i (fp, cl) = zero_loop (Suc i) (fp[i := 0], cl[i := char_of (65 + i)])"
      using True by (subst zero_loop.simps) simp
    also have "\<dots> = (take (Suc i) (fp[i := 0]) @ replicate (NUMBER_OF_CLASSES - Suc i) 0,
      take (Suc i) (cl[i := char_of (65 + i)]) @ map (\<lambda>j. char_of (65 + j)) [Suc i..<NUMBER_OF_CLASSES])"
      using "1.hyps" [OF True] "1.prems" True by simp
    also have "take (Suc i) (fp[i := 0]) = take i fp @ [0]"
      using True "1.prems" by (simp add: take_Suc_conv_app_nth)
    also have "take (Suc i) (cl[i := char_of (65 + i)]) = take i cl @ [char_of (65 + i)]"
      using True "1.prems" by (simp add: take_Suc_conv_app_nth)
    finally show ?thesis
      using True by (simp add: upt_conv_Cons replicate_append_same Suc_diff_Suc flip: replicate_Suc)
  qed
qed

lemma zero_loop_main:
  "zero_loop 0 (map g [0..<NUMBER_OF_CLASSES], map h [0..<NUMBER_OF_CLASSES]) =
     (replicate NUMBER_OF_CLASSES 0, map (\<lambda>j. char_of (65 + j)) [0..<NUMBER_OF_CLASSES])"
  by (simp add: zero_loop_result)



text \<open>The counters are C \<^verbatim>\<open>int\<close>s. They start at \<open>0\<close>, never decrease and never exceed the
  number of samples processed, so with \<open>NUMBER_OF_TESTING_SAMPLES\<close> samples they stay far
  below \<open>2\<^sup>3\<^sup>1\<close> and the unbounded integers of the model agree with the machine's.\<close>

lemma false_positive_incr_nonneg:
  "false_positive_incr fp l = Some fp' \<Longrightarrow> list_all (\<lambda>x. 0 \<le> x) fp \<Longrightarrow> list_all (\<lambda>x. 0 \<le> x) fp'"
  unfolding false_positive_incr_def Let_def
  by (auto simp: list_all_length nth_list_update split: if_splits)

lemma test_sample_nonneg:
  assumes "test_sample svm model td tc k st = Some st'"
    and "0 \<le> correct_class st" "0 \<le> wrong_class st" "list_all (\<lambda>x. 0 \<le> x) (false_positives st)"
  shows "0 \<le> correct_class st' \<and> 0 \<le> wrong_class st' \<and> list_all (\<lambda>x. 0 \<le> x) (false_positives st')"
  using assms unfolding test_sample_def Let_def
  by (auto split: option.splits if_splits dest: false_positive_incr_nonneg)

lemma testing_loop_nonneg:
  assumes "testing_loop svm model td tc k j st = Some st'"
    and "0 \<le> correct_class st" "0 \<le> wrong_class st" "list_all (\<lambda>x. 0 \<le> x) (false_positives st)"
  shows "0 \<le> correct_class st' \<and> 0 \<le> wrong_class st' \<and> list_all (\<lambda>x. 0 \<le> x) (false_positives st')"
  using assms
proof (induction svm model td tc k j st rule: testing_loop.induct)
  case (1 svm model td tc k j st)
  show ?case
  proof (cases "j < k")
    case False
    with "1.prems" show ?thesis by (subst (asm) testing_loop.simps) simp
  next
    case True
    from "1.prems"(1) True obtain st1 where st1: "test_sample svm model td tc j st = Some st1"
      and rest: "testing_loop svm model td tc k (Suc j) st1 = Some st'"
      by (subst (asm) testing_loop.simps) (auto split: option.splits)
    from test_sample_nonneg [OF st1 "1.prems"(2,3,4)] "1.IH" [OF True st1 rest]
    show ?thesis by blast
  qed
qed

lemma nonneg_le_sum_list:
  "list_all (\<lambda>x. 0 \<le> x) xs \<Longrightarrow> i < length xs \<Longrightarrow> xs ! i \<le> (sum_list xs :: int)"
proof (induction xs arbitrary: i)
  case Nil
  then show ?case by simp
next
  case (Cons x xs)
  have "0 \<le> sum_list xs" using Cons.prems(1) by (simp add: sum_list_nonneg list_all_iff)
  with Cons show ?case by (cases i) fastforce+
qed

lemma counters_bounded:
  assumes "length testing_data = NUMBER_OF_TESTING_SAMPLES"
    and "\<forall>i<NUMBER_OF_TESTING_SAMPLES. \<exists>l. at_get testing_classifications i 0 = Some l
            \<and> 0 < l \<and> l < real NUMBER_OF_CLASSES + 1"
    and "k \<le> NUMBER_OF_TESTING_SAMPLES"
  shows "\<exists>st. testing_loop svm model testing_data testing_classifications k 0
              \<lparr>correct_class = 0, wrong_class = 0, false_positives = replicate NUMBER_OF_CLASSES 0\<rparr> = Some st
      \<and> 0 \<le> correct_class st \<and> correct_class st \<le> int k
      \<and> 0 \<le> wrong_class st \<and> wrong_class st \<le> int k
      \<and> (\<forall>i<NUMBER_OF_CLASSES. 0 \<le> false_positives st ! i \<and> false_positives st ! i \<le> int k)
      \<and> int k < 2 ^ 31"
proof -
  let ?st0 = "\<lparr>correct_class = 0, wrong_class = 0, false_positives = replicate NUMBER_OF_CLASSES 0\<rparr>"
  have labels: "\<forall>i<k. \<exists>l. at_get testing_classifications i 0 = Some l
            \<and> 0 < l \<and> l < real NUMBER_OF_CLASSES + 1"
    using assms(2,3) by auto
  have le: "k \<le> length testing_data" using assms(1,3) by simp
  from testing_loop_inv [OF le labels, of ?st0 0 svm model]
  obtain st where st: "testing_loop svm model testing_data testing_classifications k 0 ?st0 = Some st"
    "correct_class st + wrong_class st = int k"
    "sum_list (false_positives st) = wrong_class st"
    "length (false_positives st) = NUMBER_OF_CLASSES"
    by (auto simp: sum_list_replicate)
  from testing_loop_nonneg [OF st(1)]
  have nn: "0 \<le> correct_class st" "0 \<le> wrong_class st" "list_all (\<lambda>x. 0 \<le> x) (false_positives st)"
    by (simp_all add: list_all_iff)
  have "\<forall>i<NUMBER_OF_CLASSES. 0 \<le> false_positives st ! i \<and> false_positives st ! i \<le> int k"
  proof (intro allI impI)
    fix i assume "i < NUMBER_OF_CLASSES"
    then have i: "i < length (false_positives st)" using st(4) by simp
    have "0 \<le> false_positives st ! i" using nn(3) i by (simp add: list_all_length)
    moreover have "false_positives st ! i \<le> wrong_class st"
      using nonneg_le_sum_list [OF nn(3) i] st(3) by simp
    ultimately show "0 \<le> false_positives st ! i \<and> false_positives st ! i \<le> int k"
      using st(2) nn(1) by simp
  qed
  moreover have "int k < 2 ^ 31" using assms(3) by (simp add: NUMBER_OF_TESTING_SAMPLES_def)
  ultimately show ?thesis using st(1,2) nn(1,2) by auto
qed

lemma initial_counters_eq:
  "initial_counters u =
     (replicate NUMBER_OF_CLASSES 0, map (\<lambda>j. char_of (65 + j)) [0..<NUMBER_OF_CLASSES])"
  unfolding initial_counters_def by (rule zero_loop_main)

lemma initial_tally_eq:
  "initial_tally u = \<lparr>correct_class = 0, wrong_class = 0, false_positives = replicate NUMBER_OF_CLASSES 0\<rparr>"
  by (simp add: initial_tally_def initial_counters_eq)

text \<open>
  Claim C1. Let the test set have \<open>NUMBER_OF_TESTING_SAMPLES\<close> rows and every true label
  lie between \<open>1\<close> and \<open>NUMBER_OF_CLASSES\<close>. Then for every \<open>k\<close> up to the number of test
  samples the loop, run from the counters of \<open>main\<close> over the first \<open>k\<close> samples, reaches a
  state in which \<open>correct_class + wrong_class\<close> is \<open>k\<close> and the sum of \<open>false_positives\<close>
  over all classes is \<open>wrong_class\<close>; this state is the one the whole loop passes through
  after \<open>k\<close> samples. With \<open>k = NUMBER_OF_TESTING_SAMPLES\<close> this is the state after the loop.
\<close>

theorem tally_invariant:
  assumes "length testing_data = NUMBER_OF_TESTING_SAMPLES"
    and "\<forall>i<NUMBER_OF_TESTING_SAMPLES. \<exists>l. at_get testing_classifications i 0 = Some l
            \<and> 1 \<le> l \<and> l \<le> real NUMBER_OF_CLASSES"
    and "k \<le> NUMBER_OF_TESTING_SAMPLES"
  shows "\<exists>st. testing_loop svm model testing_data testing_classifications k 0 (initial_tally u) = Some st
      \<and> correct_class st + wrong_class st = int k
      \<and> sum_list (false_positives st) = wrong_class st
      \<and> testing_loop svm model testing_data testing_classifications NUMBER_OF_TESTING_SAMPLES 0 (initial_tally u)
        = testing_loop svm model testing_data testing_classifications NUMBER_OF_TESTING_SAMPLES k st"
proof -
  have labels: "\<forall>i<k. \<exists>l. at_get testing_classifications i 0 = Some l \<and> 0 < l \<and> l < real NUMBER_OF_CLASSES + 1"
  proof (intro allI impI)
    fix i assume "i < k"
    then have "i < NUMBER_OF_TESTING_SAMPLES" using assms(3) by simp
    then obtain l where "at_get testing_classifications i 0 = Some l" "1 \<le> l" "l \<le> real NUMBER_OF_CLASSES"
      using assms(2) by blast
    then show "\<exists>l. at_get testing_classifications i 0 = Some l \<and> 0 < l \<and> l < real NUMBER_OF_CLASSES + 1"
      by (intro exI [of _ l]) simp
  qed
  have len: "length (false_positives (initial_tally u)) = NUMBER_OF_CLASSES"
    by (simp add: initial_tally_eq)
  have "k \<le> length testing_data" using assms(1,3) by simp
  from testing_loop_inv [OF this labels len, of 0 svm model]
  obtain st where st: "testing_loop svm model testing_data testing_classifications k 0 (initial_tally u) = Some st"
    "correct_class st + wrong_class st = int k"
    "sum_list (false_positives st) = wrong_class st"
    by (auto simp: initial_tally_eq sum_list_replicate)
  have "testing_loop svm model testing_data testing_classifications NUMBER_OF_TESTING_SAMPLES 0 (initial_tally u)
        = testing_loop svm model testing_data testing_classifications NUMBER_OF_TESTING_SAMPLES k st"
    using testing_loop_split [OF assms(3), of 0 svm model testing_data testing_classifications "initial_tally u"] st(1)
    by simp
  with st show ?thesis by blast
qed

theorem tally_invariant_witness:
  "\<exists>st. testing_loop (svm_const 2) () (replicate 1559 (replicate 617 0)) (replicate 1559 [1]) 1559 0 (initial_tally (indet 0 0)) = Some st
      \<and> correct_class st + wrong_class st = 1559
      \<and> sum_list (false_positives st) = wrong_class st"
proof -
  have h1: "length (replicate 1559 (replicate 617 (0::real))) = NUMBER_OF_TESTING_SAMPLES"
    by (simp add: NUMBER_OF_TESTING_SAMPLES_def)
  have h2: "\<forall>i<NUMBER_OF_TESTING_SAMPLES. \<exists>l. at_get (replicate 1559 [1]) i 0 = Some l
            \<and> 1 \<le> l \<and> l \<le> real NUMBER_OF_CLASSES"
    by (simp add: NUMBER_OF_TESTING_SAMPLES_def NUMBER_OF_CLASSES_def at_get_def)
  have h3: "1559 \<le> NUMBER_OF_TESTING_SAMPLES"
    by (simp add: NUMBER_OF_TESTING_SAMPLES_def)
  from tally_invariant [OF h1 h2 h3, of "svm_const 2" "()" "indet 0 0"]
  show ?thesis by auto
qed

text \<open>
  Claim C2. For a test sample whose true label is a class \<open>c\<close> in \<open>1..NUMBER_OF_CLASSES\<close>,
  the body of the loop counts a mismatch exactly when the distance of the prediction
  from the true label is at least \<open>FLT_EPSILON\<close>. On a mismatch it adds one to
  \<open>wrong_class\<close> and one to the counter of the true class \<open>c\<close> (index \<open>c - 1\<close>), whatever
  class was predicted, and changes nothing else; otherwise it adds one to
  \<open>correct_class\<close> and changes nothing else.
\<close>

theorem test_sample_outcome:
  assumes "row testing_data tsample = Some sample"
    and "at_get testing_classifications tsample 0 = Some (real c)"
    and "1 \<le> c" and "c \<le> NUMBER_OF_CLASSES"
    and "length (false_positives st) = NUMBER_OF_CLASSES"
  shows "test_sample svm model testing_data testing_classifications tsample st =
     Some (if \<bar>predict svm model sample - real c\<bar> \<ge> FLT_EPSILON
           then st\<lparr>wrong_class := wrong_class st + 1,
                   false_positives := (false_positives st)[c - 1 := false_positives st ! (c - 1) + 1]\<rparr>
           else st\<lparr>correct_class := correct_class st + 1\<rparr>)"
proof -
  have "trunc_int (real c - 1) = int c - 1"
    using trunc_int_of_int [of "int c"] by simp
  moreover have "nat (int c - 1) = c - 1" by simp
  ultimately have "false_positive_incr (false_positives st) (real c) =
      Some ((false_positives st)[c - 1 := false_positives st ! (c - 1) + 1])"
    using assms(3,4,5) unfolding false_positive_incr_def Let_def by (simp add: nat_less_iff)
  then show ?thesis
    using assms(1,2) unfolding test_sample_def Let_def by simp
qed

theorem test_sample_outcome_witness:
  "test_sample (svm_const 5) () [[0, 0]] [[3]] 0 \<lparr>correct_class = 0, wrong_class = 0, false_positives = replicate 26 0\<rparr>
     = Some \<lparr>correct_class = 0, wrong_class = 1, false_positives = (replicate 26 0)[2 := 1]\<rparr>
   \<and> test_sample (svm_const 3) () [[0, 0]] [[3]] 0 \<lparr>correct_class = 0, wrong_class = 0, false_positives = replicate 26 0\<rparr>
     = Some \<lparr>correct_class = 1, wrong_class = 0, false_positives = replicate 26 0\<rparr>"
  using test_sample_outcome [of "[[0, 0]]" 0 "[0, 0]" "[[3]]" 3
          "\<lparr>correct_class = 0, wrong_class = 0, false_positives = replicate 26 0\<rparr>" "svm_const 5" "()"]
        test_sample_outcome [of "[[0, 0]]" 0 "[0, 0]" "[[3]]" 3
          "\<lparr>correct_class = 0, wrong_class = 0, false_positives = replicate 26 0\<rparr>" "svm_const 3" "()"]
  by (simp add: row_def at_get_def NUMBER_OF_CLASSES_def svm_const_def FLT_EPSILON_def)

text \<open>
  Claim C9. On a mismatch the counter array is indexed at \<open>(int) (label - 1)\<close>. For a label
  that is an integer \<open>c\<close> in \<open>1..NUMBER_OF_CLASSES\<close> the index is \<open>c - 1\<close>, which lies in
  \<open>0..NUMBER_OF_CLASSES - 1\<close>, and the write succeeds; when every test label is such an
  integer the loop of \<open>main\<close> never takes the out-of-bounds branch, that is, it does not
  return \<open>None\<close>. For an integer label outside \<open>1..NUMBER_OF_CLASSES\<close> the write is out of
  bounds.
\<close>

theorem false_positive_index_bounds:
  assumes "length fp = NUMBER_OF_CLASSES"
  shows "(1 \<le> c \<and> c \<le> int NUMBER_OF_CLASSES \<longrightarrow>
            trunc_int (real_of_int c - 1) = c - 1 \<and> 0 \<le> c - 1 \<and> c - 1 \<le> int NUMBER_OF_CLASSES - 1
            \<and> false_positive_incr fp (real_of_int c) = Some (fp[nat (c - 1) := fp ! nat (c - 1) + 1]))
       \<and> (\<not> (1 \<le> c \<and> c \<le> int NUMBER_OF_CLASSES) \<longrightarrow> false_positive_incr fp (real_of_int c) = None)
       \<and> (length testing_data = NUMBER_OF_TESTING_SAMPLES
            \<and> (\<forall>i<NUMBER_OF_TESTING_SAMPLES. \<exists>d::int. at_get testing_classifications i 0 = Some (real_of_int d)
                    \<and> 1 \<le> d \<and> d \<le> int NUMBER_OF_CLASSES) \<longrightarrow>
            testing_loop svm model testing_data testing_classifications NUMBER_OF_TESTING_SAMPLES 0
              (initial_tally u) \<noteq> None)"
proof (intro conjI impI)
  assume c: "1 \<le> c \<and> c \<le> int NUMBER_OF_CLASSES"
  show t: "trunc_int (real_of_int c - 1) = c - 1" by (rule trunc_int_of_int)
  show "0 \<le> c - 1" "c - 1 \<le> int NUMBER_OF_CLASSES - 1" using c by simp_all
  show "false_positive_incr fp (real_of_int c) = Some (fp[nat (c - 1) := fp ! nat (c - 1) + 1])"
    using c assms unfolding false_positive_incr_def Let_def t by (simp add: nat_less_iff)
next
  assume "\<not> (1 \<le> c \<and> c \<le> int NUMBER_OF_CLASSES)"
  then show "false_positive_incr fp (real_of_int c) = None"
    unfolding false_positive_incr_def Let_def trunc_int_of_int by auto
next
  assume a: "length testing_data = NUMBER_OF_TESTING_SAMPLES
            \<and> (\<forall>i<NUMBER_OF_TESTING_SAMPLES. \<exists>d::int. at_get testing_classifications i 0 = Some (real_of_int d)
                    \<and> 1 \<le> d \<and> d \<le> int NUMBER_OF_CLASSES)"
  have labels: "\<forall>i<NUMBER_OF_TESTING_SAMPLES. \<exists>l. at_get testing_classifications i 0 = Some l
      \<and> 0 < l \<and> l < real NUMBER_OF_CLASSES + 1"
  proof (intro allI impI)
    fix i assume "i < NUMBER_OF_TESTING_SAMPLES"
    then obtain d :: int where d: "at_get testing_classifications i 0 = Some (real_of_int d)"
        "1 \<le> d" "d \<le> int NUMBER_OF_CLASSES"
      using a by blast
    have "0 < real_of_int d" using d(2) by simp
    moreover have "real_of_int d < real NUMBER_OF_CLASSES + 1" using d(3) by linarith
    ultimately show "\<exists>l. at_get testing_classifications i 0 = Some l \<and> 0 < l \<and> l < real NUMBER_OF_CLASSES + 1"
      using d(1) by blast
  qed
  have len: "length (false_positives (initial_tally u)) = NUMBER_OF_CLASSES"
    by (simp add: initial_tally_eq)
  have "NUMBER_OF_TESTING_SAMPLES \<le> length testing_data" using a by simp
  from testing_loop_inv [OF this labels len, of 0 svm model]
  show "testing_loop svm model testing_data testing_classifications NUMBER_OF_TESTING_SAMPLES 0
              (initial_tally u) \<noteq> None" by auto
qed

theorem false_positive_index_bounds_witness:
  "false_positive_incr (replicate 26 0) 26 = Some ((replicate 26 0)[25 := 1])
   \<and> false_positive_incr (replicate 26 0) 27 = None
   \<and> false_positive_incr (replicate 26 0) 0 = None
   \<and> testing_loop (svm_const 2) () (replicate 1559 (replicate 617 0)) (replicate 1559 [26]) 1559 0
         (initial_tally (indet 0 0)) \<noteq> None"
proof -
  have len: "length (replicate 26 (0::int)) = NUMBER_OF_CLASSES"
    by (simp add: NUMBER_OF_CLASSES_def)
  have pre: "length (replicate 1559 (replicate 617 (0::real))) = NUMBER_OF_TESTING_SAMPLES
     \<and> (\<forall>i<NUMBER_OF_TESTING_SAMPLES. \<exists>d::int. at_get (replicate 1559 [26]) i 0 = Some (real_of_int d)
            \<and> 1 \<le> d \<and> d \<le> int NUMBER_OF_CLASSES)"
  proof (intro conjI allI impI)
    fix i assume "i < NUMBER_OF_TESTING_SAMPLES"
    then have "at_get (replicate 1559 [26]) i 0 = Some (real_of_int 26)"
      by (simp add: NUMBER_OF_TESTING_SAMPLES_def at_get_def)
    then show "\<exists>d::int. at_get (replicate 1559 [26]) i 0 = Some (real_of_int d)
            \<and> 1 \<le> d \<and> d \<le> int NUMBER_OF_CLASSES"
      by (intro exI [of _ 26]) (simp add: NUMBER_OF_CLASSES_def)
  qed (simp add: NUMBER_OF_TESTING_SAMPLES_def)
  note th = false_positive_index_bounds [OF len, of 26 "replicate 1559 (replicate 617 0)"
         "replicate 1559 [26]" "svm_const 2" "()" "indet 0 0"]
  have r: "1 \<le> (26::int) \<and> 26 \<le> int NUMBER_OF_CLASSES"
    by (simp add: NUMBER_OF_CLASSES_def)
  have A: "false_positive_incr (replicate 26 0) 26 = Some ((replicate 26 0)[25 := 1])"
    using th r by simp
  have "testing_loop (svm_const 2) () (replicate 1559 (replicate 617 0)) (replicate 1559 [26])
           NUMBER_OF_TESTING_SAMPLES 0 (initial_tally (indet 0 0)) \<noteq> None"
    using th pre by blast
  then have B: "testing_loop (svm_const 2) () (replicate 1559 (replicate 617 0)) (replicate 1559 [26])
           1559 0 (initial_tally (indet 0 0)) \<noteq> None"
    unfolding NUMBER_OF_TESTING_SAMPLES_def .
  have C: "false_positive_incr (replicate 26 0) 27 = None"
    using false_positive_index_bounds [OF len, of 27 "[]" "[]" "svm_const 2" "()" "indet 0 0"] by (simp add: NUMBER_OF_CLASSES_def)
  have D: "false_positive_incr (replicate 26 0) 0 = None"
    using false_positive_index_bounds [OF len, of 0 "[]" "[]" "svm_const 2" "()" "indet 0 0"] by (simp add: NUMBER_OF_CLASSES_def)
  from A B C D show ?thesis by blast
qed

text \<open>The same bound for a label that need not be an integer: the index is within the
  array exactly for the labels strictly between \<open>0\<close> and \<open>NUMBER_OF_CLASSES + 1\<close>.\<close>

lemma false_positive_incr_defined_iff:
  "length fp = NUMBER_OF_CLASSES \<Longrightarrow>
   false_positive_incr fp l \<noteq> None \<longleftrightarrow> 0 < l \<and> l < real NUMBER_OF_CLASSES + 1"
  using false_positive_incr_Some_iff [of fp l] by auto

text \<open>
  Claim C6. After the loop over a test set whose labels lie in \<open>1..NUMBER_OF_CLASSES\<close>, the
  report prints, beside each of the counts \<open>correct_class\<close>, \<open>wrong_class\<close> and
  \<open>false_positives[i]\<close>, the value \<open>count * 100 / NUMBER_OF_TESTING_SAMPLES\<close>; the percentages
  printed for \<open>correct_class\<close> and \<open>wrong_class\<close> add up to \<open>100\<close> (over the reals).
\<close>

theorem report_percentages:
  assumes "length testing_data = NUMBER_OF_TESTING_SAMPLES"
    and "\<forall>i<NUMBER_OF_TESTING_SAMPLES. \<exists>l. at_get testing_classifications i 0 = Some l
            \<and> 1 \<le> l \<and> l \<le> real NUMBER_OF_CLASSES"
  shows "\<exists>st. testing_loop svm model testing_data testing_classifications
                NUMBER_OF_TESTING_SAMPLES 0 (initial_tally u) = Some st
      \<and> report st (snd (initial_counters u)) =
          Print_results (correct_class st)
                        (real_of_int (correct_class st) * 100 / real NUMBER_OF_TESTING_SAMPLES)
                        (wrong_class st)
                        (real_of_int (wrong_class st) * 100 / real NUMBER_OF_TESTING_SAMPLES)
          # map (\<lambda>i. Print_class (char_of (65 + i)) (false_positives st ! i)
                   (real_of_int (false_positives st ! i) * 100 / real NUMBER_OF_TESTING_SAMPLES))
                [0..<NUMBER_OF_CLASSES]
      \<and> percentage (correct_class st) + percentage (wrong_class st) = 100"
proof -
  have labels: "\<forall>i<NUMBER_OF_TESTING_SAMPLES. \<exists>l. at_get testing_classifications i 0 = Some l
      \<and> 0 < l \<and> l < real NUMBER_OF_CLASSES + 1"
  proof (intro allI impI)
    fix i assume "i < NUMBER_OF_TESTING_SAMPLES"
    then obtain l where "at_get testing_classifications i 0 = Some l" "1 \<le> l" "l \<le> real NUMBER_OF_CLASSES"
      using assms(2) by blast
    then show "\<exists>l. at_get testing_classifications i 0 = Some l \<and> 0 < l \<and> l < real NUMBER_OF_CLASSES + 1"
      by (intro exI [of _ l]) simp
  qed
  have len: "length (false_positives (initial_tally u)) = NUMBER_OF_CLASSES"
    by (simp add: initial_tally_eq)
  have "NUMBER_OF_TESTING_SAMPLES \<le> length testing_data" using assms(1) by simp
  from testing_loop_inv [OF this labels len, of 0 svm model]
  obtain st where st: "testing_loop svm model testing_data testing_classifications
        NUMBER_OF_TESTING_SAMPLES 0 (initial_tally u) = Some st"
    "correct_class st + wrong_class st = int NUMBER_OF_TESTING_SAMPLES"
    by (auto simp: initial_tally_eq)
  have "percentage (correct_class st) + percentage (wrong_class st)
      = real_of_int (correct_class st + wrong_class st) * 100 / real NUMBER_OF_TESTING_SAMPLES"
    by (simp add: percentage_def add_divide_distrib distrib_right)
  also have "\<dots> = 100"
    unfolding st(2) by (simp add: NUMBER_OF_TESTING_SAMPLES_def)
  finally have sum: "percentage (correct_class st) + percentage (wrong_class st) = 100" .
  have "report st (snd (initial_counters u)) =
          Print_results (correct_class st)
                        (real_of_int (correct_class st) * 100 / real NUMBER_OF_TESTING_SAMPLES)
                        (wrong_class st)
                        (real_of_int (wrong_class st) * 100 / real NUMBER_OF_TESTING_SAMPLES)
          # map (\<lambda>i. Print_class (char_of (65 + i)) (false_positives st ! i)
                   (real_of_int (false_positives st ! i) * 100 / real NUMBER_OF_TESTING_SAMPLES))
                [0..<NUMBER_OF_CLASSES]"
    by (simp add: report_def percentage_def initial_counters_eq)
  with st(1) sum show ?thesis by blast
qed

theorem report_percentages_witness:
  "\<exists>st. testing_loop (svm_const 2) () (replicate 1559 (replicate 617 0)) (replicate 1559 [1])
            NUMBER_OF_TESTING_SAMPLES 0 (initial_tally (indet 0 0)) = Some st
      \<and> percentage (correct_class st) + percentage (wrong_class st) = 100"
proof -
  have h1: "length (replicate 1559 (replicate 617 (0::real))) = NUMBER_OF_TESTING_SAMPLES"
    by (simp add: NUMBER_OF_TESTING_SAMPLES_def)
  have h2: "\<forall>i<NUMBER_OF_TESTING_SAMPLES. \<exists>l. at_get (replicate 1559 [1]) i 0 = Some l
            \<and> 1 \<le> l \<and> l \<le> real NUMBER_OF_CLASSES"
    by (simp add: NUMBER_OF_TESTING_SAMPLES_def NUMBER_OF_CLASSES_def at_get_def)
  from report_percentages [OF h1 h2, of "svm_const 2" "()" "indet 0 0"]
  show ?thesis by blast
qed

section \<open>The loader\<close>

lemma mat_dims_nth:
  "mat_dims m r c \<longleftrightarrow> length m = r \<and> (\<forall>i<r. length (m ! i) = c)"
  by (auto simp: mat_dims_def list_all_length)

lemma Mat_new_dims: "mat_dims (Mat_new r c mem) r c"
  by (simp add: mat_dims_nth Mat_new_def)

lemma at_put_dims:
  assumes "mat_dims m r c" "i < r" "j < c"
  shows "at_put m i j v = Some (m[i := (m ! i)[j := v]])"
    and "mat_dims (m[i := (m ! i)[j := v]]) r c"
  using assms by (auto simp: mat_dims_nth at_put_def nth_list_update)

lemma at_get_dims:
  "mat_dims m r c \<Longrightarrow> i < r \<Longrightarrow> j < c \<Longrightarrow> at_get m i j = Some (m ! i ! j)"
  by (simp add: mat_dims_nth at_get_def)

text \<open>One pass of the inner loop from column \<open>a\<close>: it never leaves the matrices, keeps
  their dimensions, and writes row \<open>line\<close> only.\<close>

lemma attribute_loop_total:
  assumes "reader_ok n st" "line < n"
  shows "\<exists>st'. attribute_loop line a st = Some st' \<and> reader_ok n st'"
  using assms
proof (induction line a st rule: attribute_loop.induct)
  case (1 line a st)
  obtain s t where sc: "fscanf_f (rd_f st) (rd_tmp st) = (s, t)" by (cases "fscanf_f (rd_f st) (rd_tmp st)")
  from "1.prems" have dd: "mat_dims (rd_data st) n ATTRIBUTES_PER_SAMPLE" and dc: "mat_dims (rd_classes st) n 1"
    by (simp_all add: reader_ok_def)
  consider (feat) "a < ATTRIBUTES_PER_SAMPLE" | (lab) "a = ATTRIBUTES_PER_SAMPLE" | (past) "a > ATTRIBUTES_PER_SAMPLE"
    by linarith
  then show ?case
  proof cases
    case feat
    let ?d = "(rd_data st)[line := (rd_data st ! line)[a := t]]"
    let ?st = "st\<lparr>rd_f := s, rd_tmp := t, rd_data := ?d\<rparr>"
    have put: "at_put (rd_data st) line a t = Some ?d" and dims: "mat_dims ?d n ATTRIBUTES_PER_SAMPLE"
      using at_put_dims [OF dd "1.prems"(2) feat] by simp_all
    have ok: "reader_ok n ?st" using dims dc by (simp add: reader_ok_def)
    have "attribute_loop line a st = attribute_loop line (Suc a) ?st"
      using feat sc put by (subst attribute_loop.simps) simp
    moreover have "\<exists>st'. attribute_loop line (Suc a) ?st = Some st' \<and> reader_ok n st'"
      using "1.IH"(1) [OF _ feat sc [symmetric] put ok "1.prems"(2)] feat by simp
    ultimately show ?thesis by simp
  next
    case lab
    let ?c = "(rd_classes st)[line := (rd_classes st ! line)[0 := t]]"
    let ?st = "st\<lparr>rd_f := s, rd_tmp := t, rd_classes := ?c\<rparr>"
    have put: "at_put (rd_classes st) line 0 t = Some ?c" and dims: "mat_dims ?c n 1"
      using at_put_dims [OF dc "1.prems"(2), of 0] by simp_all
    have ok: "reader_ok n ?st" using dims dd by (simp add: reader_ok_def)
    have "attribute_loop line a st = attribute_loop line (Suc a) ?st"
      using lab sc put by (subst attribute_loop.simps) simp
    moreover have "\<exists>st'. attribute_loop line (Suc a) ?st = Some st' \<and> reader_ok n st'"
      using "1.IH"(2) [OF _ _ lab sc [symmetric] put ok "1.prems"(2)] lab by simp
    ultimately show ?thesis by simp
  next
    case past
    then have "attribute_loop line a st = Some st" by (subst attribute_loop.simps) simp
    with "1.prems" show ?thesis by simp
  qed
qed

lemma line_loop_total:
  assumes "reader_ok n st" "n_samples \<le> int n"
  shows "\<exists>st'. line_loop n_samples line st = Some st' \<and> reader_ok n st'"
  using assms
proof (induction n_samples line st rule: line_loop.induct)
  case (1 n_samples line st)
  show ?case
  proof (cases "int line < n_samples")
    case False
    then have "line_loop n_samples line st = Some st" by (subst line_loop.simps) simp
    with "1.prems" show ?thesis by simp
  next
    case True
    then have "line < n" using "1.prems"(2) by simp
    from attribute_loop_total [OF "1.prems"(1) this, of 0]
    obtain st1 where st1: "attribute_loop line 0 st = Some st1" "reader_ok n st1" by blast
    have "line_loop n_samples line st = line_loop n_samples (Suc line) st1"
      using True st1(1) by (subst line_loop.simps) simp
    with "1.IH" [OF True st1(1) st1(2) "1.prems"(2)] show ?thesis by simp
  qed
qed

lemma read_data_from_csv_unopened:
  "fs filename = None \<Longrightarrow>
   read_data_from_csv fs filename data classes n_samples tmp0 =
     Some (0, data, classes, [Fopen filename False, Print_error filename])"
  by (simp add: read_data_from_csv_def)

lemma read_data_from_csv_opened:
  assumes "fs filename = Some content"
    and "mat_dims data n ATTRIBUTES_PER_SAMPLE" "mat_dims classes n 1" "n_samples \<le> int n"
  shows "\<exists>d c. read_data_from_csv fs filename data classes n_samples tmp0 =
            Some (1, d, c, [Fopen filename True, Fclose filename])
          \<and> mat_dims d n ATTRIBUTES_PER_SAMPLE \<and> mat_dims c n 1"
proof -
  let ?st = "\<lparr>rd_f = content, rd_tmp = tmp0, rd_data = data, rd_classes = classes\<rparr>"
  have "reader_ok n ?st" using assms(2,3) by (simp add: reader_ok_def)
  from line_loop_total [OF this assms(4), of 0]
  obtain st' where "line_loop n_samples 0 ?st = Some st'" "reader_ok n st'" by blast
  then show ?thesis using assms(1) by (simp add: read_data_from_csv_def reader_ok_def)
qed

text \<open>The inner loop from column \<open>a\<close> performs the remaining
  \<open>ATTRIBUTES_PER_SAMPLE + 1 - a\<close> conversions of the row and stores their values from
  column \<open>a\<close> on; the last one goes to the label vector.\<close>

lemma length_scan_values [simp]: "length (scan_values k s t) = k"
  by (induction k arbitrary: s t) (auto split: prod.splits)

lemma attribute_loop_scans:
  assumes "reader_ok n st" "line < n" "a \<le> ATTRIBUTES_PER_SAMPLE + 1"
  shows "\<exists>st'. attribute_loop line a st = Some st' \<and> reader_ok n st'
      \<and> (rd_f st', rd_tmp st') = scan_final (ATTRIBUTES_PER_SAMPLE + 1 - a) (rd_f st) (rd_tmp st)
      \<and> (\<forall>i<n. \<forall>j<ATTRIBUTES_PER_SAMPLE. rd_data st' ! i ! j =
            (if i = line \<and> a \<le> j
             then scan_values (ATTRIBUTES_PER_SAMPLE + 1 - a) (rd_f st) (rd_tmp st) ! (j - a)
             else rd_data st ! i ! j))
      \<and> (\<forall>i<n. rd_classes st' ! i ! 0 =
            (if i = line \<and> a \<le> ATTRIBUTES_PER_SAMPLE
             then scan_values (ATTRIBUTES_PER_SAMPLE + 1 - a) (rd_f st) (rd_tmp st) ! (ATTRIBUTES_PER_SAMPLE - a)
             else rd_classes st ! i ! 0))"
  using assms
proof (induction line a st rule: attribute_loop.induct)
  case (1 line a st)
  obtain s t where sc: "fscanf_f (rd_f st) (rd_tmp st) = (s, t)" by (cases "fscanf_f (rd_f st) (rd_tmp st)")
  from "1.prems" have dd: "mat_dims (rd_data st) n ATTRIBUTES_PER_SAMPLE" and dc: "mat_dims (rd_classes st) n 1"
    by (simp_all add: reader_ok_def)
  have ln: "line < length (rd_data st)" "line < length (rd_classes st)"
    using dd dc "1.prems"(2) by (simp_all add: mat_dims_nth)
  consider (feature) "a < ATTRIBUTES_PER_SAMPLE" | (label_col) "a = ATTRIBUTES_PER_SAMPLE"
    | (past) "a = ATTRIBUTES_PER_SAMPLE + 1"
    using "1.prems"(3) by linarith
  then show ?case
  proof cases
    case feature
    let ?d = "(rd_data st)[line := (rd_data st ! line)[a := t]]"
    let ?st = "st\<lparr>rd_f := s, rd_tmp := t, rd_data := ?d\<rparr>"
    have put: "at_put (rd_data st) line a t = Some ?d" and dims: "mat_dims ?d n ATTRIBUTES_PER_SAMPLE"
      using at_put_dims [OF dd "1.prems"(2) feature] by simp_all
    have ok: "reader_ok n ?st" using dims dc by (simp add: reader_ok_def)
    have step: "attribute_loop line a st = attribute_loop line (Suc a) ?st"
      using feature sc put by (subst attribute_loop.simps) simp
    have k: "ATTRIBUTES_PER_SAMPLE + 1 - a = Suc (ATTRIBUTES_PER_SAMPLE + 1 - Suc a)"
      using feature by simp
    have rowlen: "a < length (rd_data st ! line)"
      using dd "1.prems"(2) feature by (simp add: mat_dims_nth)
    obtain st' where st': "attribute_loop line (Suc a) ?st = Some st'" "reader_ok n st'"
      "(rd_f st', rd_tmp st') = scan_final (ATTRIBUTES_PER_SAMPLE + 1 - Suc a) s t"
      "\<forall>i<n. \<forall>j<ATTRIBUTES_PER_SAMPLE. rd_data st' ! i ! j =
            (if i = line \<and> Suc a \<le> j
             then scan_values (ATTRIBUTES_PER_SAMPLE + 1 - Suc a) s t ! (j - Suc a)
             else ?d ! i ! j)"
      "\<forall>i<n. rd_classes st' ! i ! 0 =
            (if i = line \<and> Suc a \<le> ATTRIBUTES_PER_SAMPLE
             then scan_values (ATTRIBUTES_PER_SAMPLE + 1 - Suc a) s t ! (ATTRIBUTES_PER_SAMPLE - Suc a)
             else rd_classes st ! i ! 0)"
      using "1.IH"(1) [OF _ feature sc [symmetric] put ok "1.prems"(2)] feature by auto
    have fin: "(rd_f st', rd_tmp st') = scan_final (ATTRIBUTES_PER_SAMPLE + 1 - a) (rd_f st) (rd_tmp st)"
      unfolding k using st'(3) sc by simp
    have vals: "scan_values (ATTRIBUTES_PER_SAMPLE + 1 - a) (rd_f st) (rd_tmp st)
        = t # scan_values (ATTRIBUTES_PER_SAMPLE + 1 - Suc a) s t"
      unfolding k using sc by simp
    have data: "\<forall>i<n. \<forall>j<ATTRIBUTES_PER_SAMPLE. rd_data st' ! i ! j =
            (if i = line \<and> a \<le> j
             then scan_values (ATTRIBUTES_PER_SAMPLE + 1 - a) (rd_f st) (rd_tmp st) ! (j - a)
             else rd_data st ! i ! j)"
    proof (intro allI impI)
      fix i j assume ij: "i < n" "j < ATTRIBUTES_PER_SAMPLE"
      show "rd_data st' ! i ! j =
            (if i = line \<and> a \<le> j
             then scan_values (ATTRIBUTES_PER_SAMPLE + 1 - a) (rd_f st) (rd_tmp st) ! (j - a)
             else rd_data st ! i ! j)"
      proof (cases "i = line \<and> Suc a \<le> j")
        case True
        then have "j - a = Suc (j - Suc a)" by linarith
        then show ?thesis using st'(4) ij True unfolding vals by simp
      next
        case False
        from st'(4) ij have "rd_data st' ! i ! j =
            (if i = line \<and> Suc a \<le> j
             then scan_values (ATTRIBUTES_PER_SAMPLE + 1 - Suc a) s t ! (j - Suc a)
             else ?d ! i ! j)" by blast
        with False have "rd_data st' ! i ! j = ?d ! i ! j" by (auto split: if_splits)
        also have "\<dots> = (if i = line \<and> j = a then t else rd_data st ! i ! j)"
          using ln(1) rowlen by (auto simp: nth_list_update)
        finally show ?thesis using False unfolding vals by auto
      qed
    qed
    have cls: "\<forall>i<n. rd_classes st' ! i ! 0 =
            (if i = line \<and> a \<le> ATTRIBUTES_PER_SAMPLE
             then scan_values (ATTRIBUTES_PER_SAMPLE + 1 - a) (rd_f st) (rd_tmp st) ! (ATTRIBUTES_PER_SAMPLE - a)
             else rd_classes st ! i ! 0)"
    proof (intro allI impI)
      fix i assume "i < n"
      have "ATTRIBUTES_PER_SAMPLE - a = Suc (ATTRIBUTES_PER_SAMPLE - Suc a)" using feature by linarith
      then show "rd_classes st' ! i ! 0 =
            (if i = line \<and> a \<le> ATTRIBUTES_PER_SAMPLE
             then scan_values (ATTRIBUTES_PER_SAMPLE + 1 - a) (rd_f st) (rd_tmp st) ! (ATTRIBUTES_PER_SAMPLE - a)
             else rd_classes st ! i ! 0)"
        using st'(5) \<open>i < n\<close> feature unfolding vals by simp
    qed
    show ?thesis using step st'(1,2) fin data cls by simp
  next
    case label_col
    let ?c = "(rd_classes st)[line := (rd_classes st ! line)[0 := t]]"
    let ?st = "st\<lparr>rd_f := s, rd_tmp := t, rd_classes := ?c\<rparr>"
    have put: "at_put (rd_classes st) line 0 t = Some ?c" and dims: "mat_dims ?c n 1"
      using at_put_dims [OF dc "1.prems"(2), of 0] by simp_all
    have ok: "reader_ok n ?st" using dims dd by (simp add: reader_ok_def)
    have step: "attribute_loop line a st = attribute_loop line (Suc a) ?st"
      using label_col sc put by (subst attribute_loop.simps) simp
    have "attribute_loop line (Suc a) ?st = Some ?st"
      using label_col by (subst attribute_loop.simps) simp
    with step have res: "attribute_loop line a st = Some ?st" by simp
    have k: "ATTRIBUTES_PER_SAMPLE + 1 - a = Suc 0" using label_col by simp
    have rowlen: "0 < length (rd_classes st ! line)"
      using dc "1.prems"(2) by (simp add: mat_dims_nth)
    have fin: "(rd_f ?st, rd_tmp ?st) = scan_final (ATTRIBUTES_PER_SAMPLE + 1 - a) (rd_f st) (rd_tmp st)"
      unfolding k using sc by simp
    have vals: "scan_values (ATTRIBUTES_PER_SAMPLE + 1 - a) (rd_f st) (rd_tmp st) = [t]"
      unfolding k using sc by simp
    have data: "\<forall>i<n. \<forall>j<ATTRIBUTES_PER_SAMPLE. rd_data ?st ! i ! j =
            (if i = line \<and> a \<le> j
             then scan_values (ATTRIBUTES_PER_SAMPLE + 1 - a) (rd_f st) (rd_tmp st) ! (j - a)
             else rd_data st ! i ! j)"
      using label_col by simp
    have cls: "\<forall>i<n. rd_classes ?st ! i ! 0 =
            (if i = line \<and> a \<le> ATTRIBUTES_PER_SAMPLE
             then scan_values (ATTRIBUTES_PER_SAMPLE + 1 - a) (rd_f st) (rd_tmp st) ! (ATTRIBUTES_PER_SAMPLE - a)
             else rd_classes st ! i ! 0)"
      unfolding vals using label_col ln(2) rowlen by (auto simp: nth_list_update)
    show ?thesis using res ok fin data cls by blast
  next
    case past
    then have "attribute_loop line a st = Some st" by (subst attribute_loop.simps) simp
    with "1.prems"(1) past show ?thesis by simp
  qed
qed

text \<open>The outer loop from row \<open>line\<close> stores the remaining rows of conversions.\<close>

lemma line_loop_scans:
  assumes "reader_ok n st" "line \<le> n" "n_samples = int n"
  shows "\<exists>st'. line_loop n_samples line st = Some st' \<and> reader_ok n st'
      \<and> (\<forall>i<n. \<forall>j<ATTRIBUTES_PER_SAMPLE. rd_data st' ! i ! j =
            (if line \<le> i
             then scan_rows (n - line) (rd_f st) (rd_tmp st) ! (i - line) ! j
             else rd_data st ! i ! j))
      \<and> (\<forall>i<n. rd_classes st' ! i ! 0 =
            (if line \<le> i
             then scan_rows (n - line) (rd_f st) (rd_tmp st) ! (i - line) ! ATTRIBUTES_PER_SAMPLE
             else rd_classes st ! i ! 0))"
  using assms
proof (induction n_samples line st rule: line_loop.induct)
  case (1 n_samples line st)
  show ?case
  proof (cases "line < n")
    case False
    then have "line_loop n_samples line st = Some st"
      using "1.prems"(3) by (subst line_loop.simps) simp
    with "1.prems"(1) False show ?thesis by simp
  next
    case True
    then have lt: "int line < n_samples" using "1.prems"(3) by simp
    from attribute_loop_scans [OF "1.prems"(1) True, of 0]
    obtain st1 where st1: "attribute_loop line 0 st = Some st1" "reader_ok n st1"
      "(rd_f st1, rd_tmp st1) = scan_final (ATTRIBUTES_PER_SAMPLE + 1) (rd_f st) (rd_tmp st)"
      "\<forall>i<n. \<forall>j<ATTRIBUTES_PER_SAMPLE. rd_data st1 ! i ! j =
         (if i = line then scan_values (ATTRIBUTES_PER_SAMPLE + 1) (rd_f st) (rd_tmp st) ! j
          else rd_data st ! i ! j)"
      "\<forall>i<n. rd_classes st1 ! i ! 0 =
         (if i = line then scan_values (ATTRIBUTES_PER_SAMPLE + 1) (rd_f st) (rd_tmp st) ! ATTRIBUTES_PER_SAMPLE
          else rd_classes st ! i ! 0)"
      by auto
    have step: "line_loop n_samples line st = line_loop n_samples (Suc line) st1"
      using lt st1(1) by (subst line_loop.simps) simp
    from "1.IH" [OF lt st1(1) st1(2) _ "1.prems"(3)] True
    obtain st' where st': "line_loop n_samples (Suc line) st1 = Some st'" "reader_ok n st'"
      "\<forall>i<n. \<forall>j<ATTRIBUTES_PER_SAMPLE. rd_data st' ! i ! j =
            (if Suc line \<le> i
             then scan_rows (n - Suc line) (rd_f st1) (rd_tmp st1) ! (i - Suc line) ! j
             else rd_data st1 ! i ! j)"
      "\<forall>i<n. rd_classes st' ! i ! 0 =
            (if Suc line \<le> i
             then scan_rows (n - Suc line) (rd_f st1) (rd_tmp st1) ! (i - Suc line) ! ATTRIBUTES_PER_SAMPLE
             else rd_classes st1 ! i ! 0)"
      by auto
    have k: "n - line = Suc (n - Suc line)" using True by linarith
    have rows: "scan_rows (n - line) (rd_f st) (rd_tmp st) =
        scan_values (ATTRIBUTES_PER_SAMPLE + 1) (rd_f st) (rd_tmp st)
        # scan_rows (n - Suc line) (rd_f st1) (rd_tmp st1)"
      unfolding k scan_rows.simps st1(3) [symmetric] by simp
    have entry: "line \<le> i \<Longrightarrow>
         scan_rows (n - line) (rd_f st) (rd_tmp st) ! (i - line) =
           (if i = line then scan_values (ATTRIBUTES_PER_SAMPLE + 1) (rd_f st) (rd_tmp st)
            else scan_rows (n - Suc line) (rd_f st1) (rd_tmp st1) ! (i - Suc line))" for i
    proof (cases "i = line")
      case True
      then show ?thesis unfolding rows by simp
    next
      case False
      assume "line \<le> i"
      with False have "i - line = Suc (i - Suc line)" by linarith
      then show ?thesis unfolding rows using False by simp
    qed
    have data: "\<forall>i<n. \<forall>j<ATTRIBUTES_PER_SAMPLE. rd_data st' ! i ! j =
            (if line \<le> i
             then scan_rows (n - line) (rd_f st) (rd_tmp st) ! (i - line) ! j
             else rd_data st ! i ! j)"
    proof (intro allI impI)
      fix i j assume ij: "i < n" "j < ATTRIBUTES_PER_SAMPLE"
      from st'(3) ij have a: "rd_data st' ! i ! j =
            (if Suc line \<le> i
             then scan_rows (n - Suc line) (rd_f st1) (rd_tmp st1) ! (i - Suc line) ! j
             else rd_data st1 ! i ! j)" by blast
      from st1(4) ij have b: "rd_data st1 ! i ! j =
         (if i = line then scan_values (ATTRIBUTES_PER_SAMPLE + 1) (rd_f st) (rd_tmp st) ! j
          else rd_data st ! i ! j)" by blast
      show "rd_data st' ! i ! j =
            (if line \<le> i
             then scan_rows (n - line) (rd_f st) (rd_tmp st) ! (i - line) ! j
             else rd_data st ! i ! j)"
        using a b entry [of i] by (auto split: if_splits)
    qed
    have cls: "\<forall>i<n. rd_classes st' ! i ! 0 =
            (if line \<le> i
             then scan_rows (n - line) (rd_f st) (rd_tmp st) ! (i - line) ! ATTRIBUTES_PER_SAMPLE
             else rd_classes st ! i ! 0)"
    proof (intro allI impI)
      fix i assume i: "i < n"
      from st'(4) i have a: "rd_classes st' ! i ! 0 =
            (if Suc line \<le> i
             then scan_rows (n - Suc line) (rd_f st1) (rd_tmp st1) ! (i - Suc line) ! ATTRIBUTES_PER_SAMPLE
             else rd_classes st1 ! i ! 0)" by blast
      from st1(5) i have b: "rd_classes st1 ! i ! 0 =
         (if i = line then scan_values (ATTRIBUTES_PER_SAMPLE + 1) (rd_f st) (rd_tmp st) ! ATTRIBUTES_PER_SAMPLE
          else rd_classes st ! i ! 0)" by blast
      show "rd_classes st' ! i ! 0 =
            (if line \<le> i
             then scan_rows (n - line) (rd_f st) (rd_tmp st) ! (i - line) ! ATTRIBUTES_PER_SAMPLE
             else rd_classes st ! i ! 0)"
        using a b entry [of i] by (auto split: if_splits)
    qed
    show ?thesis using step st'(1,2) data cls by simp
  qed
qed

text \<open>The loader on a file that opens: it returns \<open>1\<close>, closes the file, and every entry
  of the two matrices holds a conversion of the file, in the order of the calls.\<close>

lemma read_data_from_csv_scans:
  assumes "fs filename = Some content"
    and "mat_dims data n ATTRIBUTES_PER_SAMPLE" "mat_dims classes n 1"
  shows "\<exists>d c. read_data_from_csv fs filename data classes (int n) tmp0 =
            Some (1, d, c, [Fopen filename True, Fclose filename])
      \<and> mat_dims d n ATTRIBUTES_PER_SAMPLE \<and> mat_dims c n 1
      \<and> (\<forall>i<n. \<forall>j<ATTRIBUTES_PER_SAMPLE. d ! i ! j = scan_rows n content tmp0 ! i ! j)
      \<and> (\<forall>i<n. c ! i ! 0 = scan_rows n content tmp0 ! i ! ATTRIBUTES_PER_SAMPLE)"
proof -
  let ?st = "\<lparr>rd_f = content, rd_tmp = tmp0, rd_data = data, rd_classes = classes\<rparr>"
  have "reader_ok n ?st" using assms(2,3) by (simp add: reader_ok_def)
  from line_loop_scans [OF this, of 0 "int n"]
  obtain st' where "line_loop (int n) 0 ?st = Some st'" "reader_ok n st'"
    "\<forall>i<n. \<forall>j<ATTRIBUTES_PER_SAMPLE. rd_data st' ! i ! j = scan_rows n content tmp0 ! i ! j"
    "\<forall>i<n. rd_classes st' ! i ! 0 = scan_rows n content tmp0 ! i ! ATTRIBUTES_PER_SAMPLE"
    by auto
  then show ?thesis using assms(1) by (simp add: read_data_from_csv_def reader_ok_def)
qed

text \<open>At the end of the stream every conversion fails and \<^verbatim>\<open>tmp\<close> keeps its value.\<close>

lemma conv_f_eof: "conv_f [] = (None, [])"
  by (simp add: conv_f_def scan_sign_def scan_digits_def scan_fraction_def)

lemma fscanf_f_eof: "fscanf_f [] t = ([], t)"
  by (simp add: fscanf_f_def conv_f_eof)

lemma scan_values_eof: "scan_values k [] t = replicate k t"
  by (induction k) (simp_all add: fscanf_f_eof)

lemma scan_final_eof: "scan_final k [] t = ([], t)"
  by (induction k) (simp_all add: fscanf_f_eof)

lemma scan_rows_eof: "scan_rows k [] t = replicate k (replicate (ATTRIBUTES_PER_SAMPLE + 1) t)"
  by (induction k) (simp_all add: scan_values_eof scan_final_eof del: scan_values.simps scan_final.simps)



section \<open>Scanning a token of the file format\<close>

lemma isdigit_chars:
  "isdigit c \<Longrightarrow> \<not> isspace c \<and> c \<noteq> CHR ''+'' \<and> c \<noteq> CHR ''-'' \<and> c \<noteq> CHR ''.''
      \<and> c \<noteq> CHR ''e'' \<and> c \<noteq> CHR ''E'' \<and> c \<noteq> CHR '',''"
  by (auto simp: isdigit_def isspace_def)

lemma special_chars:
  "\<not> isdigit (CHR '','')" "\<not> isdigit (CHR ''.'')" "\<not> isdigit (CHR ''e'')" "\<not> isdigit (CHR ''E'')"
  "\<not> isdigit (CHR ''+'')" "\<not> isdigit (CHR ''-'')"
  "\<not> isspace (CHR '','')" "\<not> isspace (CHR ''.'')" "\<not> isspace (CHR ''+'')" "\<not> isspace (CHR ''-'')"
  by (simp_all add: isdigit_def isspace_def)

lemma scan_digits_append:
  "list_all isdigit ds \<Longrightarrow> \<not> isdigit c \<Longrightarrow> scan_digits (ds @ c # r) = (ds, c # r)"
  by (simp add: scan_digits_def list_all_iff)

lemma scan_sign_text:
  "c \<noteq> CHR ''+'' \<Longrightarrow> c \<noteq> CHR ''-'' \<Longrightarrow> scan_sign (sign_text s @ c # r) = (s = Minus, c # r)"
  by (cases s) (simp_all add: scan_sign_def sign_text_def)

lemma skip_space:
  "list_all isspace ws \<Longrightarrow> \<not> isspace c \<Longrightarrow> dropWhile isspace (ws @ c # r) = c # r"
  by (simp add: list_all_iff)


lemma exp_tail:
  assumes "case x of None \<Rightarrow> True | Some (e, s, ds) \<Rightarrow> (e = CHR ''e'' \<or> e = CHR ''E'') \<and> ds \<noteq> [] \<and> list_all isdigit ds"
  shows "\<exists>c r. exp_text x @ CHR '','' # rest = c # r \<and> \<not> isdigit c \<and> c \<noteq> CHR ''.''
           \<and> c \<noteq> CHR ''+'' \<and> c \<noteq> CHR ''-'' \<and> \<not> isspace c"
proof (cases x)
  case None
  then show ?thesis by (simp add: exp_text_def isdigit_def isspace_def)
next
  case (Some a)
  then obtain e s ds where "x = Some (e, s, ds)" by (cases a) auto
  with assms show ?thesis by (auto simp: exp_text_def isdigit_def isspace_def)
qed

lemma frac_tail:
  assumes "t3 = c # r" "\<not> isdigit c" "c \<noteq> CHR ''+''" "c \<noteq> CHR ''-''" "\<not> isspace c"
  shows "\<exists>c' r'. frac_text f @ t3 = c' # r' \<and> \<not> isdigit c'
           \<and> c' \<noteq> CHR ''+'' \<and> c' \<noteq> CHR ''-'' \<and> \<not> isspace c'"
  using assms by (cases f) (simp_all add: frac_text_def isdigit_def isspace_def)

lemma int_tail:
  assumes "list_all isdigit ds" "t2 = c # r" "c \<noteq> CHR ''+''" "c \<noteq> CHR ''-''" "\<not> isspace c"
  shows "\<exists>c' r'. ds @ t2 = c' # r' \<and> c' \<noteq> CHR ''+'' \<and> c' \<noteq> CHR ''-'' \<and> \<not> isspace c'"
proof (cases ds)
  case Nil
  with assms show ?thesis by simp
next
  case (Cons d ds')
  with assms(1) have "isdigit d" by simp
  from isdigit_chars [OF this] Cons show ?thesis by simp
qed

lemma skip_space_sign:
  assumes "list_all isspace ws" "t1 = c # r" "\<not> isspace c"
  shows "dropWhile isspace (ws @ sign_text s @ t1) = sign_text s @ t1"
  using assms by (cases s) (simp_all add: sign_text_def skip_space special_chars)

lemma scan_fraction_text:
  assumes "case f of None \<Rightarrow> True | Some ds \<Rightarrow> list_all isdigit ds"
    and "t3 = c # r" "\<not> isdigit c" "c \<noteq> CHR ''.''"
  shows "scan_fraction (frac_text f @ t3) = ((case f of None \<Rightarrow> [] | Some ds \<Rightarrow> ds), t3)"
  using assms by (cases f) (simp_all add: frac_text_def scan_fraction_def scan_digits_append)

lemma conv_f_exponent:
  assumes "x = Some (e, s, ds)" "e = CHR ''e'' \<or> e = CHR ''E''" "ds \<noteq> []" "list_all isdigit ds"
  shows "(case exp_text x @ CHR '','' # rest of
            [] \<Rightarrow> (Some v, exp_text x @ CHR '','' # rest)
          | c # r \<Rightarrow>
              if c = CHR ''e'' \<or> c = CHR ''E'' then
                (let (eneg, s5) = scan_sign r;
                     (ed, s6) = scan_digits s5
                 in if ed = [] then (None, s6)
                    else (Some (if eneg then v / 10 ^ decimal ed else v * 10 ^ decimal ed), s6))
              else (Some v, exp_text x @ CHR '','' # rest))
       = (Some (if s = Minus then v / 10 ^ decimal ds else v * 10 ^ decimal ds), CHR '','' # rest)"
proof -
  obtain d ds' where ds: "ds = d # ds'" using assms(3) by (cases ds) auto
  then have "isdigit d" using assms(4) by simp
  then have d: "d \<noteq> CHR ''+''" "d \<noteq> CHR ''-''" using isdigit_chars by blast+
  have 1: "scan_sign (sign_text s @ ds @ CHR '','' # rest) = (s = Minus, ds @ CHR '','' # rest)"
    unfolding ds using scan_sign_text [OF d, of s "ds' @ CHR '','' # rest"] by simp
  have 2: "scan_digits (ds @ CHR '','' # rest) = (ds, CHR '','' # rest)"
    using scan_digits_append [OF assms(4) special_chars(1)] .
  show ?thesis
    using assms(1,2,3) 1 2 by (auto simp: exp_text_def)
qed

lemma conv_f_token:
  assumes "well_formed t" "list_all isspace ws"
  shows "conv_f (ws @ token_text t @ CHR '','' # rest) = (Some (token_value t), CHR '','' # rest)"
proof -
  define t3 where "t3 = exp_text (tk_exp t) @ CHR '','' # rest"
  define t2 where "t2 = frac_text (tk_frac t) @ t3"
  define t1 where "t1 = tk_int t @ t2"
  define fd where "fd = (case tk_frac t of None \<Rightarrow> [] | Some ds \<Rightarrow> ds)"
  from assms(1) have wi: "list_all isdigit (tk_int t)"
    and wfr: "case tk_frac t of None \<Rightarrow> True | Some ds \<Rightarrow> list_all isdigit ds"
    and wx: "case tk_exp t of None \<Rightarrow> True
             | Some (e, s, ds) \<Rightarrow> (e = CHR ''e'' \<or> e = CHR ''E'') \<and> ds \<noteq> [] \<and> list_all isdigit ds"
    and ne: "tk_int t @ fd \<noteq> []"
    by (auto simp: well_formed_def fd_def split: option.splits)
  obtain c3 r3 where c3: "t3 = c3 # r3" "\<not> isdigit c3" "c3 \<noteq> CHR ''.''"
      "c3 \<noteq> CHR ''+''" "c3 \<noteq> CHR ''-''" "\<not> isspace c3"
    unfolding t3_def using exp_tail [OF wx, of rest] by blast
  obtain c2 r2 where c2: "t2 = c2 # r2" "\<not> isdigit c2"
      "c2 \<noteq> CHR ''+''" "c2 \<noteq> CHR ''-''" "\<not> isspace c2"
    unfolding t2_def using frac_tail [OF c3(1,2,4,5,6), of "tk_frac t"] by blast
  obtain c1 r1 where c1: "t1 = c1 # r1" "c1 \<noteq> CHR ''+''" "c1 \<noteq> CHR ''-''" "\<not> isspace c1"
    unfolding t1_def using int_tail [OF wi c2(1,3,4,5)] by blast
  have spelled: "ws @ token_text t @ CHR '','' # rest = ws @ sign_text (tk_sign t) @ t1"
    by (simp add: token_text_def t1_def t2_def t3_def)
  have s1: "dropWhile isspace (ws @ sign_text (tk_sign t) @ t1) = sign_text (tk_sign t) @ t1"
    using skip_space_sign [OF assms(2) c1(1,4)] .
  have s2: "scan_sign (sign_text (tk_sign t) @ t1) = (tk_sign t = Minus, t1)"
    unfolding c1(1) using scan_sign_text [OF c1(2,3)] .
  have s3: "scan_digits t1 = (tk_int t, t2)"
    unfolding t1_def c2(1) using scan_digits_append [OF wi c2(2)] .
  have s4: "scan_fraction t2 = (fd, t3)"
    unfolding t2_def fd_def using scan_fraction_text [OF wfr c3(1,2,3)] .
  let ?m = "real (decimal (tk_int t @ fd)) / 10 ^ length fd"
  let ?v = "if tk_sign t = Minus then - ?m else ?m"
  have body: "conv_f (ws @ token_text t @ CHR '','' # rest) =
      (case t3 of
         [] \<Rightarrow> (Some ?v, t3)
       | c # r \<Rightarrow>
           if c = CHR ''e'' \<or> c = CHR ''E'' then
             (let (eneg, s5) = scan_sign r;
                  (ed, s6) = scan_digits s5
              in if ed = [] then (None, s6)
                 else (Some (if eneg then ?v / 10 ^ decimal ed else ?v * 10 ^ decimal ed), s6))
           else (Some ?v, t3))"
  proof -
    have ne2: "(tk_int t = [] \<and> fd = []) = False" using ne by simp
    show ?thesis
      unfolding spelled conv_f_def s1 by (simp add: Let_def s2 s3 s4 ne2)
  qed
  show ?thesis
  proof (cases "tk_exp t")
    case None
    then have "t3 = CHR '','' # rest" by (simp add: t3_def exp_text_def)
    moreover have "token_value t = ?v" using None by (simp add: token_value_def fd_def Let_def)
    ultimately show ?thesis unfolding body by simp
  next
    case (Some a)
    then obtain e s ds where x: "tk_exp t = Some (e, s, ds)" by (cases a) auto
    with wx have w: "e = CHR ''e'' \<or> e = CHR ''E''" "ds \<noteq> []" "list_all isdigit ds" by simp_all
    have "token_value t = (if s = Minus then ?v / 10 ^ decimal ds else ?v * 10 ^ decimal ds)"
      using x by (simp add: token_value_def fd_def Let_def)
    then show ?thesis
      unfolding body t3_def using conv_f_exponent [OF x w, of ?v rest] by simp
  qed
qed

lemma fscanf_f_token:
  assumes "well_formed t" "list_all isspace ws"
  shows "fscanf_f (ws @ token_text t @ CHR '','' # rest) tmp = (rest, token_value t)"
  by (simp add: fscanf_f_def conv_f_token [OF assms])

lemma scan_tokens:
  assumes "list_all well_formed toks" "list_all isspace ws"
  shows "scan_values (length toks) (ws @ concat (map (\<lambda>t. token_text t @ '','') toks) @ rest) tmp
           = map token_value toks
       \<and> scan_final (length toks) (ws @ concat (map (\<lambda>t. token_text t @ '','') toks) @ rest) tmp
           = (if toks = [] then (ws @ rest, tmp) else (rest, token_value (last toks)))"
  using assms
proof (induction toks arbitrary: ws tmp)
  case Nil
  then show ?case by simp
next
  case (Cons t toks)
  from Cons.prems have wt: "well_formed t" and wts: "list_all well_formed toks" by simp_all
  let ?rest = "concat (map (\<lambda>t. token_text t @ '','') toks) @ rest"
  have f: "fscanf_f (ws @ concat (map (\<lambda>t. token_text t @ '','') (t # toks)) @ rest) tmp
         = (?rest, token_value t)"
    using fscanf_f_token [OF wt Cons.prems(2), of ?rest tmp] by simp
  from Cons.IH [OF wts, of "[]" "token_value t"]
  have ih: "scan_values (length toks) ?rest (token_value t) = map token_value toks"
    "scan_final (length toks) ?rest (token_value t)
       = (if toks = [] then (rest, token_value t) else (rest, token_value (last toks)))"
    by simp_all
  show ?case
    using f ih by (simp del: concat.simps map_append)
qed

lemma isspace_newline: "list_all isspace [CHR 0x0A]"
  by (simp add: isspace_def)

lemma scan_rows_file:
  assumes "list_all (\<lambda>r. length (row_features r) = ATTRIBUTES_PER_SAMPLE
                     \<and> list_all well_formed (row_features r) \<and> well_formed (row_label r)) rows"
    and "list_all isspace ws"
  shows "scan_rows (length rows) (ws @ file_text rows) tmp
           = map (\<lambda>r. map token_value (row_features r @ [row_label r])) rows"
  using assms
proof (induction rows arbitrary: ws tmp)
  case Nil
  then show ?case by simp
next
  case (Cons r rows)
  let ?toks = "row_features r @ [row_label r]"
  let ?rest = "[CHR 0x0A] @ file_text rows"
  from Cons.prems(1) have len: "length ?toks = ATTRIBUTES_PER_SAMPLE + 1"
    and wf: "list_all well_formed ?toks"
    and rows: "list_all (\<lambda>r. length (row_features r) = ATTRIBUTES_PER_SAMPLE
                     \<and> list_all well_formed (row_features r) \<and> well_formed (row_label r)) rows"
    by simp_all
  have stream: "ws @ file_text (r # rows) = ws @ concat (map (\<lambda>t. token_text t @ '','') ?toks) @ ?rest"
    by (simp add: file_text_def row_text_def)
  from scan_tokens [OF wf Cons.prems(2), of ?rest tmp]
  have v: "scan_values (ATTRIBUTES_PER_SAMPLE + 1) (ws @ file_text (r # rows)) tmp = map token_value ?toks"
    and f: "scan_final (ATTRIBUTES_PER_SAMPLE + 1) (ws @ file_text (r # rows)) tmp
             = (?rest, token_value (row_label r))"
    unfolding stream len [symmetric] by simp_all
  have "scan_rows (length (r # rows)) (ws @ file_text (r # rows)) tmp
      = map token_value ?toks # scan_rows (length rows) ?rest (token_value (row_label r))"
    unfolding length_Cons scan_rows.simps v f by simp
  also have "scan_rows (length rows) ?rest (token_value (row_label r))
      = map (\<lambda>r. map token_value (row_features r @ [row_label r])) rows"
    by (rule Cons.IH [OF rows isspace_newline])
  finally show ?case by simp
qed

text \<open>The conversions of a file that conforms to the format are the values of its
  tokens, line by line.\<close>

lemma scan_rows_conforming:
  assumes "conforming n rows"
  shows "scan_rows n (file_text rows) t
      = map (\<lambda>r. map token_value (row_features r @ [row_label r])) rows"
proof -
  from assms have len: "length rows = n"
    and rows: "list_all (\<lambda>r. length (row_features r) = ATTRIBUTES_PER_SAMPLE
                     \<and> list_all well_formed (row_features r) \<and> well_formed (row_label r)) rows"
    by (auto simp: conforming_def list_all_length)
  show ?thesis using scan_rows_file [OF rows, of "[]" t] len by simp
qed

lemma conforming_nth:
  assumes "conforming n rows" "i < n"
  shows "length (row_features (rows ! i)) = ATTRIBUTES_PER_SAMPLE"
    and "\<exists>k\<in>{1..NUMBER_OF_CLASSES}. token_value (row_label (rows ! i)) = real k"
  using assms by (auto simp: conforming_def list_all_length)

section \<open>The program as a whole\<close>

lemma main_training_unopened:
  "fs argv1 = None \<Longrightarrow>
   main svm fs u argv1 argv2 = Some (- 1, [Fopen argv1 False, Print_error argv1])"
  by (simp add: main_def Let_def read_data_from_csv_unopened)

text \<open>The program is compiled for grid search: it calls \<^verbatim>\<open>train_auto\<close> with \<open>10\<close> folds and a
  parameter block that names the linear kernel and \<open>C = 10\<close>, then prints the parameters
  it reads back from the trained classifier and the number of support vectors that the
  library reports.\<close>

lemma default_params_fields:
  "USE_OPENCV_GRID_SEARCH_AUTOTRAIN \<noteq> 0"
  "p_svm_type default_params = C_SVC" "p_kernel_type default_params = LINEAR"
  "p_C default_params = 10"
  by (simp_all add: USE_OPENCV_GRID_SEARCH_AUTOTRAIN_def default_params_def)

lemma train_and_test_eq:
  "train_and_test svm u d1 c1 d2 c2 =
     (case testing_loop svm (train_auto svm d1 c1 default_params 10) d2 c2
             NUMBER_OF_TESTING_SAMPLES 0 (initial_tally u) of
        None \<Rightarrow> None
      | Some st \<Rightarrow>
          Some (0, [Train_auto d1 c1 default_params 10,
                    Print_params (get_params svm (train_auto svm d1 c1 default_params 10)),
                    Print_support_vectors
                      (get_support_vector_count svm (train_auto svm d1 c1 default_params 10))]
                   @ report st (snd (initial_counters u))))"
  by (simp add: train_and_test_def Let_def USE_OPENCV_GRID_SEARCH_AUTOTRAIN_def split: option.splits)

lemma read_new_opened:
  assumes "fs filename = Some content"
  shows "\<exists>d c. read_data_from_csv fs filename (Mat_new n ATTRIBUTES_PER_SAMPLE m1) (Mat_new n 1 m2)
                 (int n) tmp0 = Some (1, d, c, [Fopen filename True, Fclose filename])
          \<and> mat_dims d n ATTRIBUTES_PER_SAMPLE \<and> mat_dims c n 1"
  using assms by (rule read_data_from_csv_opened) (simp_all add: Mat_new_dims)

lemma main_testing_unopened:
  assumes "fs argv1 = Some content" "fs argv2 = None"
  shows "main svm fs u argv1 argv2 =
     Some (- 1, [Fopen argv1 True, Fclose argv1, Fopen argv2 False, Print_error argv2])"
proof -
  obtain d c where
    "read_data_from_csv fs argv1
       (Mat_new NUMBER_OF_TRAINING_SAMPLES ATTRIBUTES_PER_SAMPLE (u_training_data u))
       (Mat_new NUMBER_OF_TRAINING_SAMPLES 1 (u_training_classifications u))
       (int NUMBER_OF_TRAINING_SAMPLES) (u_tmp_training u)
     = Some (1, d, c, [Fopen argv1 True, Fclose argv1])"
    using read_new_opened [where fs = fs and filename = argv1, OF assms(1)] by blast
  then show ?thesis
    using assms(2) by (simp add: main_def Let_def read_data_from_csv_unopened)
qed

lemma main_both_opened:
  assumes "fs argv1 = Some content1" "fs argv2 = Some content2"
  shows "\<exists>d1 c1 d2 c2.
      read_data_from_csv fs argv1
         (Mat_new NUMBER_OF_TRAINING_SAMPLES ATTRIBUTES_PER_SAMPLE (u_training_data u))
         (Mat_new NUMBER_OF_TRAINING_SAMPLES 1 (u_training_classifications u))
         (int NUMBER_OF_TRAINING_SAMPLES) (u_tmp_training u)
        = Some (1, d1, c1, [Fopen argv1 True, Fclose argv1])
    \<and> read_data_from_csv fs argv2
         (Mat_new NUMBER_OF_TESTING_SAMPLES ATTRIBUTES_PER_SAMPLE (u_testing_data u))
         (Mat_new NUMBER_OF_TESTING_SAMPLES 1 (u_testing_classifications u))
         (int NUMBER_OF_TESTING_SAMPLES) (u_tmp_testing u)
        = Some (1, d2, c2, [Fopen argv2 True, Fclose argv2])
    \<and> mat_dims d2 NUMBER_OF_TESTING_SAMPLES ATTRIBUTES_PER_SAMPLE
    \<and> mat_dims c2 NUMBER_OF_TESTING_SAMPLES 1
    \<and> main svm fs u argv1 argv2 =
        (case testing_loop svm (train_auto svm d1 c1 default_params 10) d2 c2
                NUMBER_OF_TESTING_SAMPLES 0 (initial_tally u) of
           None \<Rightarrow> None
         | Some st \<Rightarrow>
             Some (0, [Fopen argv1 True, Fclose argv1, Fopen argv2 True, Fclose argv2,
                       Train_auto d1 c1 default_params 10,
                       Print_params (get_params svm (train_auto svm d1 c1 default_params 10)),
                       Print_support_vectors
                         (get_support_vector_count svm (train_auto svm d1 c1 default_params 10))]
                      @ report st (snd (initial_counters u))))"
proof -
  obtain d1 c1 where r1:
    "read_data_from_csv fs argv1
       (Mat_new NUMBER_OF_TRAINING_SAMPLES ATTRIBUTES_PER_SAMPLE (u_training_data u))
       (Mat_new NUMBER_OF_TRAINING_SAMPLES 1 (u_training_classifications u))
       (int NUMBER_OF_TRAINING_SAMPLES) (u_tmp_training u)
     = Some (1, d1, c1, [Fopen argv1 True, Fclose argv1])"
    using read_new_opened [where fs = fs and filename = argv1, OF assms(1)] by blast
  obtain d2 c2 where r2:
    "read_data_from_csv fs argv2
       (Mat_new NUMBER_OF_TESTING_SAMPLES ATTRIBUTES_PER_SAMPLE (u_testing_data u))
       (Mat_new NUMBER_OF_TESTING_SAMPLES 1 (u_testing_classifications u))
       (int NUMBER_OF_TESTING_SAMPLES) (u_tmp_testing u)
     = Some (1, d2, c2, [Fopen argv2 True, Fclose argv2])"
    and dims: "mat_dims d2 NUMBER_OF_TESTING_SAMPLES ATTRIBUTES_PER_SAMPLE"
              "mat_dims c2 NUMBER_OF_TESTING_SAMPLES 1"
    using read_new_opened [where fs = fs and filename = argv2, OF assms(2)] by blast
  have "main svm fs u argv1 argv2 =
        (case train_and_test svm u d1 c1 d2 c2 of
           None \<Rightarrow> None
         | Some (r, ev) \<Rightarrow> Some (r, [Fopen argv1 True, Fclose argv1] @ [Fopen argv2 True, Fclose argv2] @ ev))"
    using r1 r2 by (simp add: main_def Let_def)
  also have "\<dots> =
        (case testing_loop svm (train_auto svm d1 c1 default_params 10) d2 c2
                NUMBER_OF_TESTING_SAMPLES 0 (initial_tally u) of
           None \<Rightarrow> None
         | Some st \<Rightarrow>
             Some (0, [Fopen argv1 True, Fclose argv1, Fopen argv2 True, Fclose argv2,
                       Train_auto d1 c1 default_params 10,
                       Print_params (get_params svm (train_auto svm d1 c1 default_params 10)),
                       Print_support_vectors
                         (get_support_vector_count svm (train_auto svm d1 c1 default_params 10))]
                      @ report st (snd (initial_counters u))))"
    by (simp add: train_and_test_eq split: option.splits)
  finally show ?thesis using r1 r2 dims by blast
qed


lemma printed_counts_classes:
  "printed_counts (map (\<lambda>i. Print_class (l i) (n i) (p i)) xs) = map n xs"
  by (induction xs) simp_all

lemma printed_counts_report:
  "printed_counts ([Fopen a1 b1, Fclose a2, Fopen a3 b3, Fclose a4, Train_auto d c p k,
                    Print_params q, Print_support_vectors v] @ report st cl)
     = correct_class st # wrong_class st # map (\<lambda>i. false_positives st ! i) [0..<NUMBER_OF_CLASSES]"
  by (simp add: report_def printed_counts_classes)






text \<open>End to end: on two files that conform to the format the program returns \<open>0\<close>, and
  the counts it prints are those of a state of the loop in which
  \<open>correct_class + wrong_class\<close> is the number of test samples and the per-class counts
  add up to \<open>wrong_class\<close>.\<close>

lemma main_on_conforming_files:
  assumes "conforming NUMBER_OF_TRAINING_SAMPLES rows1" "fs argv1 = Some (file_text rows1)"
    and "conforming NUMBER_OF_TESTING_SAMPLES rows2" "fs argv2 = Some (file_text rows2)"
  shows "\<exists>ev (st::tally). main svm fs u argv1 argv2 = Some (0, ev)
      \<and> printed_counts ev = correct_class st # wrong_class st # false_positives st
      \<and> correct_class st + wrong_class st = int NUMBER_OF_TESTING_SAMPLES
      \<and> sum_list (false_positives st) = wrong_class st"
proof -
  from main_both_opened [where fs = fs and ?argv1.0 = argv1 and ?argv2.0 = argv2, OF assms(2,4), of u svm]
  obtain d1 c1 d2 c2 where m:
    "read_data_from_csv fs argv2
         (Mat_new NUMBER_OF_TESTING_SAMPLES ATTRIBUTES_PER_SAMPLE (u_testing_data u))
         (Mat_new NUMBER_OF_TESTING_SAMPLES 1 (u_testing_classifications u))
         (int NUMBER_OF_TESTING_SAMPLES) (u_tmp_testing u)
        = Some (1, d2, c2, [Fopen argv2 True, Fclose argv2])"
    "mat_dims d2 NUMBER_OF_TESTING_SAMPLES ATTRIBUTES_PER_SAMPLE"
    "mat_dims c2 NUMBER_OF_TESTING_SAMPLES 1"
    "main svm fs u argv1 argv2 =
        (case testing_loop svm (train_auto svm d1 c1 default_params 10) d2 c2
                NUMBER_OF_TESTING_SAMPLES 0 (initial_tally u) of
           None \<Rightarrow> None
         | Some st \<Rightarrow>
             Some (0, [Fopen argv1 True, Fclose argv1, Fopen argv2 True, Fclose argv2,
                       Train_auto d1 c1 default_params 10,
                       Print_params (get_params svm (train_auto svm d1 c1 default_params 10)),
                       Print_support_vectors
                         (get_support_vector_count svm (train_auto svm d1 c1 default_params 10))]
                      @ report st (snd (initial_counters u))))"
    by blast
  have dd: "mat_dims (Mat_new NUMBER_OF_TESTING_SAMPLES ATTRIBUTES_PER_SAMPLE (u_testing_data u))
              NUMBER_OF_TESTING_SAMPLES ATTRIBUTES_PER_SAMPLE"
    and dc: "mat_dims (Mat_new NUMBER_OF_TESTING_SAMPLES 1 (u_testing_classifications u))
              NUMBER_OF_TESTING_SAMPLES 1"
    by (rule Mat_new_dims)+
  from read_data_from_csv_scans [where fs = fs and filename = argv2, OF assms(4) dd dc,
         of "u_tmp_testing u"] m(1)
  have vals: "\<forall>i<NUMBER_OF_TESTING_SAMPLES. c2 ! i ! 0 =
      scan_rows NUMBER_OF_TESTING_SAMPLES (file_text rows2) (u_tmp_testing u) ! i ! ATTRIBUTES_PER_SAMPLE"
    by auto
  from assms(3) have len: "length rows2 = NUMBER_OF_TESTING_SAMPLES" by (simp add: conforming_def)
  have "\<forall>i<NUMBER_OF_TESTING_SAMPLES. c2 ! i ! 0 = token_value (row_label (rows2 ! i))"
    using vals conforming_nth(1) [OF assms(3)] len
    unfolding scan_rows_conforming [OF assms(3)] by (simp add: nth_append)
  with conforming_nth(2) [OF assms(3)]
  have "\<forall>i<NUMBER_OF_TESTING_SAMPLES. \<exists>k\<in>{1..NUMBER_OF_CLASSES}. c2 ! i ! 0 = real k"
    by simp
  then have labels: "\<forall>i<NUMBER_OF_TESTING_SAMPLES. \<exists>l. at_get c2 i 0 = Some l
      \<and> 0 < l \<and> l < real NUMBER_OF_CLASSES + 1"
    using at_get_dims [OF m(3), of _ 0] by fastforce
  have len0: "length (false_positives (initial_tally u)) = NUMBER_OF_CLASSES"
    by (simp add: initial_tally_eq)
  have "NUMBER_OF_TESTING_SAMPLES \<le> length d2" using m(2) by (simp add: mat_dims_nth)
  from testing_loop_inv [OF this labels len0, of 0 svm "train_auto svm d1 c1 default_params 10"]
  obtain st where st: "testing_loop svm (train_auto svm d1 c1 default_params 10) d2 c2
        NUMBER_OF_TESTING_SAMPLES 0 (initial_tally u) = Some st"
    "correct_class st + wrong_class st = int NUMBER_OF_TESTING_SAMPLES"
    "sum_list (false_positives st) = wrong_class st"
    "length (false_positives st) = NUMBER_OF_CLASSES"
    by (auto simp: initial_tally_eq sum_list_replicate)
  have "map (\<lambda>i. false_positives st ! i) [0..<NUMBER_OF_CLASSES] = false_positives st"
    using st(4) map_nth [of "false_positives st"] by simp
  then have A: "main svm fs u argv1 argv2 =
      Some (0, [Fopen argv1 True, Fclose argv1, Fopen argv2 True, Fclose argv2,
                Train_auto d1 c1 default_params 10,
                Print_params (get_params svm (train_auto svm d1 c1 default_params 10)),
                Print_support_vectors
                  (get_support_vector_count svm (train_auto svm d1 c1 default_params 10))]
               @ report st (snd (initial_counters u)))"
    and B: "printed_counts ([Fopen argv1 True, Fclose argv1, Fopen argv2 True, Fclose argv2,
                Train_auto d1 c1 default_params 10,
                Print_params (get_params svm (train_auto svm d1 c1 default_params 10)),
                Print_support_vectors
                  (get_support_vector_count svm (train_auto svm d1 c1 default_params 10))]
               @ report st (snd (initial_counters u)))
         = correct_class st # wrong_class st # false_positives st"
    unfolding m(4) st(1) by (simp_all add: printed_counts_report del: append.simps)
  show ?thesis
    by (rule exI, rule exI [of _ st], intro conjI) (rule A B st(2) st(3))+
qed

section \<open>Claims about the loader\<close>








text \<open>The file \<^verbatim>\<open>1,2,\<close>: two conversions succeed, every later one fails and leaves \<open>2\<close> in
  \<^verbatim>\<open>tmp\<close>.\<close>

lemma fscanf_f_one_two:
  "fscanf_f ''1,2,'' t = (''2,'', 1)" "fscanf_f ''2,'' t = ([], 2)"
  by (simp_all add: fscanf_f_def conv_f_def scan_sign_def scan_digits_def scan_fraction_def
      isspace_def isdigit_def decimal_def digit_val_def)

lemma scan_rows_one_two:
  "scan_rows (Suc m) ''1,2,'' t =
     (1 # 2 # replicate (ATTRIBUTES_PER_SAMPLE - 1) 2)
     # replicate m (replicate (ATTRIBUTES_PER_SAMPLE + 1) 2)"
proof -
  have k: "ATTRIBUTES_PER_SAMPLE + 1 = Suc (Suc (ATTRIBUTES_PER_SAMPLE - 1))"
    by (simp add: ATTRIBUTES_PER_SAMPLE_def)
  have "scan_values (ATTRIBUTES_PER_SAMPLE + 1) ''1,2,'' t = 1 # 2 # replicate (ATTRIBUTES_PER_SAMPLE - 1) 2"
    unfolding k by (simp add: fscanf_f_one_two scan_values_eof)
  moreover have "scan_final (ATTRIBUTES_PER_SAMPLE + 1) ''1,2,'' t = ([], 2)"
    unfolding k by (simp add: fscanf_f_one_two scan_final_eof)
  ultimately show ?thesis
    unfolding scan_rows.simps by (simp add: scan_rows_eof del: replicate.simps)
qed

lemma scan_rows_one_two_label:
  assumes "i < Suc m"
  shows "scan_rows (Suc m) ''1,2,'' t ! i ! ATTRIBUTES_PER_SAMPLE = 2"
proof (cases i)
  case 0
  have "ATTRIBUTES_PER_SAMPLE = Suc (Suc (ATTRIBUTES_PER_SAMPLE - 2))"
    by (simp add: ATTRIBUTES_PER_SAMPLE_def)
  then have "(1 # 2 # replicate (ATTRIBUTES_PER_SAMPLE - 1) (2::real)) ! ATTRIBUTES_PER_SAMPLE
      = replicate (ATTRIBUTES_PER_SAMPLE - 1) 2 ! (ATTRIBUTES_PER_SAMPLE - 2)"
    by (metis nth_Cons_Suc)
  also have "\<dots> = 2" by (simp add: ATTRIBUTES_PER_SAMPLE_def)
  finally show ?thesis unfolding scan_rows_one_two 0 by simp
next
  case (Suc k)
  then have "k < m" using assms by simp
  then have "replicate m (replicate (ATTRIBUTES_PER_SAMPLE + 1) (2::real)) ! k ! ATTRIBUTES_PER_SAMPLE = 2"
    by (simp only: nth_replicate less_add_one)
  then show ?thesis unfolding scan_rows_one_two Suc by simp
qed




section \<open>Claims about the program as a whole\<close>

text \<open>
  Claim C10. The two files are loaded one after the other and the second only if the
  first loaded: when the training file cannot be opened, \<open>read_data_from_csv\<close> returns \<open>0\<close>
  for it and \<open>main\<close> returns \<open>-1\<close> after exactly two events, the failed \<^verbatim>\<open>fopen\<close> of the
  training file and the error message. The testing file is not opened and nothing is
  trained or evaluated; whether the testing file (a different path) exists, and what
  it holds, makes no difference to the run.
\<close>

theorem testing_file_not_opened:
  assumes "fs argv1 = None"
  shows "read_data_from_csv fs argv1
           (Mat_new NUMBER_OF_TRAINING_SAMPLES ATTRIBUTES_PER_SAMPLE (u_training_data u))
           (Mat_new NUMBER_OF_TRAINING_SAMPLES 1 (u_training_classifications u))
           (int NUMBER_OF_TRAINING_SAMPLES) (u_tmp_training u)
         = Some (0, Mat_new NUMBER_OF_TRAINING_SAMPLES ATTRIBUTES_PER_SAMPLE (u_training_data u),
                    Mat_new NUMBER_OF_TRAINING_SAMPLES 1 (u_training_classifications u),
                    [Fopen argv1 False, Print_error argv1])
       \<and> main svm fs u argv1 argv2 = Some (- 1, [Fopen argv1 False, Print_error argv1])
       \<and> (argv2 \<noteq> argv1 \<longrightarrow> main svm (fs(argv2 := x)) u argv1 argv2 = main svm fs u argv1 argv2)"
proof (intro conjI impI)
  show "read_data_from_csv fs argv1
           (Mat_new NUMBER_OF_TRAINING_SAMPLES ATTRIBUTES_PER_SAMPLE (u_training_data u))
           (Mat_new NUMBER_OF_TRAINING_SAMPLES 1 (u_training_classifications u))
           (int NUMBER_OF_TRAINING_SAMPLES) (u_tmp_training u)
         = Some (0, Mat_new NUMBER_OF_TRAINING_SAMPLES ATTRIBUTES_PER_SAMPLE (u_training_data u),
                    Mat_new NUMBER_OF_TRAINING_SAMPLES 1 (u_training_classifications u),
                    [Fopen argv1 False, Print_error argv1])"
    using assms by (rule read_data_from_csv_unopened)
  show m: "main svm fs u argv1 argv2 = Some (- 1, [Fopen argv1 False, Print_error argv1])"
    using assms by (rule main_training_unopened)
  assume "argv2 \<noteq> argv1"
  then have "(fs(argv2 := x)) argv1 = None" using assms by simp
  then have "main svm (fs(argv2 := x)) u argv1 argv2 = Some (- 1, [Fopen argv1 False, Print_error argv1])"
    by (rule main_training_unopened)
  with m show "main svm (fs(argv2 := x)) u argv1 argv2 = main svm fs u argv1 argv2" by simp
qed

theorem testing_file_not_opened_witness:
  "main (svm_const 1) [''test.csv'' \<mapsto> ''1,''] (indet 0 0) ''train.csv'' ''test.csv''
     = Some (- 1, [Fopen ''train.csv'' False, Print_error ''train.csv''])
   \<and> main (svm_const 1) Map.empty (indet 0 0) ''train.csv'' ''test.csv''
     = main (svm_const 1) [''test.csv'' \<mapsto> ''1,''] (indet 0 0) ''train.csv'' ''test.csv''"
proof -
  have a: "[''test.csv'' \<mapsto> ''1,''] ''train.csv'' = None" by simp
  have b: "''test.csv'' \<noteq> ''train.csv''" by simp
  have c: "([''test.csv'' \<mapsto> ''1,''])(''test.csv'' := None) = Map.empty" by simp
  from testing_file_not_opened [where fs = "[''test.csv'' \<mapsto> ''1,'']" and ?argv1.0 = "''train.csv''"
         and ?argv2.0 = "''test.csv''" and x = None and svm = "svm_const 1" and u = "indet 0 0", OF a] b
  show ?thesis unfolding c by simp
qed

text \<open>
  Claim C3. \<open>read_data_from_csv\<close> returns \<open>0\<close>, with the matrices untouched, when \<^verbatim>\<open>fopen\<close>
  fails. \<open>main\<close> returns \<open>-1\<close> when the training file cannot be opened, and when the
  training file opens and the testing file cannot be opened; in both cases its events
  are file operations and the error message only, so nothing is handed to training.
  When both files open, both calls of the loader return \<open>1\<close> and \<open>main\<close> trains on the
  loaded training set, runs the evaluation loop on the loaded test set and, when the
  loop completes, returns \<open>0\<close>.
\<close>

theorem exit_codes:
  "(fs filename = None \<longrightarrow>
      read_data_from_csv fs filename data classes n_samples tmp0
        = Some (0, data, classes, [Fopen filename False, Print_error filename]))
   \<and> (fs argv1 = None \<longrightarrow>
        main svm fs u argv1 argv2 = Some (- 1, [Fopen argv1 False, Print_error argv1]))
   \<and> (fs argv1 \<noteq> None \<and> fs argv2 = None \<longrightarrow>
        main svm fs u argv1 argv2 =
          Some (- 1, [Fopen argv1 True, Fclose argv1, Fopen argv2 False, Print_error argv2]))
   \<and> (fs argv1 \<noteq> None \<and> fs argv2 \<noteq> None \<longrightarrow>
        (\<exists>d1 c1 d2 c2.
            read_data_from_csv fs argv1
               (Mat_new NUMBER_OF_TRAINING_SAMPLES ATTRIBUTES_PER_SAMPLE (u_training_data u))
               (Mat_new NUMBER_OF_TRAINING_SAMPLES 1 (u_training_classifications u))
               (int NUMBER_OF_TRAINING_SAMPLES) (u_tmp_training u)
              = Some (1, d1, c1, [Fopen argv1 True, Fclose argv1])
          \<and> read_data_from_csv fs argv2
               (Mat_new NUMBER_OF_TESTING_SAMPLES ATTRIBUTES_PER_SAMPLE (u_testing_data u))
               (Mat_new NUMBER_OF_TESTING_SAMPLES 1 (u_testing_classifications u))
               (int NUMBER_OF_TESTING_SAMPLES) (u_tmp_testing u)
              = Some (1, d2, c2, [Fopen argv2 True, Fclose argv2])
          \<and> main svm fs u argv1 argv2 =
              (case testing_loop svm (train_auto svm d1 c1 default_params 10) d2 c2
                      NUMBER_OF_TESTING_SAMPLES 0 (initial_tally u) of
                 None \<Rightarrow> None
               | Some st \<Rightarrow>
                   Some (0, [Fopen argv1 True, Fclose argv1, Fopen argv2 True, Fclose argv2,
                             Train_auto d1 c1 default_params 10,
                             Print_params (get_params svm (train_auto svm d1 c1 default_params 10)),
                             Print_support_vectors
                               (get_support_vector_count svm (train_auto svm d1 c1 default_params 10))]
                            @ report st (snd (initial_counters u))))))"
proof (intro conjI impI)
  assume "fs filename = None"
  then show "read_data_from_csv fs filename data classes n_samples tmp0
        = Some (0, data, classes, [Fopen filename False, Print_error filename])"
    by (rule read_data_from_csv_unopened)
next
  assume "fs argv1 = None"
  then show "main svm fs u argv1 argv2 = Some (- 1, [Fopen argv1 False, Print_error argv1])"
    by (rule main_training_unopened)
next
  assume "fs argv1 \<noteq> None \<and> fs argv2 = None"
  then obtain content where "fs argv1 = Some content" "fs argv2 = None" by auto
  then show "main svm fs u argv1 argv2 =
          Some (- 1, [Fopen argv1 True, Fclose argv1, Fopen argv2 False, Print_error argv2])"
    by (rule main_testing_unopened)
next
  assume "fs argv1 \<noteq> None \<and> fs argv2 \<noteq> None"
  then obtain content1 content2 where f: "fs argv1 = Some content1" "fs argv2 = Some content2" by auto
  from main_both_opened [where fs = fs and ?argv1.0 = argv1 and ?argv2.0 = argv2, OF f, of u svm]
  show "\<exists>d1 c1 d2 c2.
            read_data_from_csv fs argv1
               (Mat_new NUMBER_OF_TRAINING_SAMPLES ATTRIBUTES_PER_SAMPLE (u_training_data u))
               (Mat_new NUMBER_OF_TRAINING_SAMPLES 1 (u_training_classifications u))
               (int NUMBER_OF_TRAINING_SAMPLES) (u_tmp_training u)
              = Some (1, d1, c1, [Fopen argv1 True, Fclose argv1])
          \<and> read_data_from_csv fs argv2
               (Mat_new NUMBER_OF_TESTING_SAMPLES ATTRIBUTES_PER_SAMPLE (u_testing_data u))
               (Mat_new NUMBER_OF_TESTING_SAMPLES 1 (u_testing_classifications u))
               (int NUMBER_OF_TESTING_SAMPLES) (u_tmp_testing u)
              = Some (1, d2, c2, [Fopen argv2 True, Fclose argv2])
          \<and> main svm fs u argv1 argv2 =
              (case testing_loop svm (train_auto svm d1 c1 default_params 10) d2 c2
                      NUMBER_OF_TESTING_SAMPLES 0 (initial_tally u) of
                 None \<Rightarrow> None
               | Some st \<Rightarrow>
                   Some (0, [Fopen argv1 True, Fclose argv1, Fopen argv2 True, Fclose argv2,
                             Train_auto d1 c1 default_params 10,
                             Print_params (get_params svm (train_auto svm d1 c1 default_params 10)),
                             Print_support_vectors
                               (get_support_vector_count svm (train_auto svm d1 c1 default_params 10))]
                            @ report st (snd (initial_counters u))))"
    by blast
qed

theorem exit_codes_witness:
  "main (svm_const 1) Map.empty (indet 1 1) ''train.csv'' ''test.csv''
     = Some (- 1, [Fopen ''train.csv'' False, Print_error ''train.csv''])
   \<and> main (svm_const 1) [''train.csv'' \<mapsto> []] (indet 1 1) ''train.csv'' ''test.csv''
     = Some (- 1, [Fopen ''train.csv'' True, Fclose ''train.csv'',
                   Fopen ''test.csv'' False, Print_error ''test.csv''])
   \<and> (\<exists>ev. main (svm_const 1) [''train.csv'' \<mapsto> ''1,2,'', ''test.csv'' \<mapsto> ''1,2,''] (indet 1 1)
               ''train.csv'' ''test.csv'' = Some (0, ev))"
proof (intro conjI)
  show "main (svm_const 1) Map.empty (indet 1 1) ''train.csv'' ''test.csv''
     = Some (- 1, [Fopen ''train.csv'' False, Print_error ''train.csv''])"
    using exit_codes [where fs = Map.empty and filename = "''train.csv''" and data = "[]"
        and classes = "[]" and n_samples = 0 and ?tmp0.0 = 0 and ?argv1.0 = "''train.csv''"
        and ?argv2.0 = "''test.csv''" and svm = "svm_const 1" and u = "indet 1 1"]
    by simp
  show "main (svm_const 1) [''train.csv'' \<mapsto> []] (indet 1 1) ''train.csv'' ''test.csv''
     = Some (- 1, [Fopen ''train.csv'' True, Fclose ''train.csv'',
                   Fopen ''test.csv'' False, Print_error ''test.csv''])"
    using exit_codes [where fs = "[''train.csv'' \<mapsto> []]" and filename = "''test.csv''" and data = "[]"
        and classes = "[]" and n_samples = 0 and ?tmp0.0 = 0 and ?argv1.0 = "''train.csv''"
        and ?argv2.0 = "''test.csv''" and svm = "svm_const 1" and u = "indet 1 1"]
    by simp
  let ?fs = "[''train.csv'' \<mapsto> ''1,2,'', ''test.csv'' \<mapsto> ''1,2,'']"
  let ?u = "indet 1 1"
  have both: "?fs ''train.csv'' \<noteq> None \<and> ?fs ''test.csv'' \<noteq> None" by simp
  from exit_codes [where fs = ?fs and filename = "''none.csv''" and data = "[]"
        and classes = "[]" and n_samples = 0 and ?tmp0.0 = 0 and ?argv1.0 = "''train.csv''"
        and ?argv2.0 = "''test.csv''" and svm = "svm_const 1" and u = ?u] both
  obtain d1 c1 d2 c2 where
    r2: "read_data_from_csv ?fs ''test.csv''
               (Mat_new NUMBER_OF_TESTING_SAMPLES ATTRIBUTES_PER_SAMPLE (u_testing_data ?u))
               (Mat_new NUMBER_OF_TESTING_SAMPLES 1 (u_testing_classifications ?u))
               (int NUMBER_OF_TESTING_SAMPLES) (u_tmp_testing ?u)
              = Some (1, d2, c2, [Fopen ''test.csv'' True, Fclose ''test.csv''])"
    and m: "main (svm_const 1) ?fs ?u ''train.csv'' ''test.csv'' =
              (case testing_loop (svm_const 1) (train_auto (svm_const 1) d1 c1 default_params 10) d2 c2
                      NUMBER_OF_TESTING_SAMPLES 0 (initial_tally ?u) of
                 None \<Rightarrow> None
               | Some st \<Rightarrow>
                   Some (0, [Fopen ''train.csv'' True, Fclose ''train.csv'',
                             Fopen ''test.csv'' True, Fclose ''test.csv'',
                             Train_auto d1 c1 default_params 10,
                             Print_params (get_params (svm_const 1)
                                (train_auto (svm_const 1) d1 c1 default_params 10)),
                             Print_support_vectors
                               (get_support_vector_count (svm_const 1)
                                  (train_auto (svm_const 1) d1 c1 default_params 10))]
                            @ report st (snd (initial_counters ?u))))"
    by blast
  have dd: "mat_dims (Mat_new NUMBER_OF_TESTING_SAMPLES ATTRIBUTES_PER_SAMPLE (u_testing_data ?u))
              NUMBER_OF_TESTING_SAMPLES ATTRIBUTES_PER_SAMPLE"
    and dc: "mat_dims (Mat_new NUMBER_OF_TESTING_SAMPLES 1 (u_testing_classifications ?u))
              NUMBER_OF_TESTING_SAMPLES 1"
    by (rule Mat_new_dims)+
  have e: "?fs ''test.csv'' = Some ''1,2,''" by simp
  from read_data_from_csv_scans [where fs = ?fs and filename = "''test.csv''", OF e dd dc,
         of "u_tmp_testing ?u"] r2
  have dims: "mat_dims d2 NUMBER_OF_TESTING_SAMPLES ATTRIBUTES_PER_SAMPLE"
       "mat_dims c2 NUMBER_OF_TESTING_SAMPLES 1"
    and vals: "\<forall>i<NUMBER_OF_TESTING_SAMPLES.
        c2 ! i ! 0 = scan_rows NUMBER_OF_TESTING_SAMPLES ''1,2,'' (u_tmp_testing ?u) ! i ! ATTRIBUTES_PER_SAMPLE"
    by auto
  have n: "NUMBER_OF_TESTING_SAMPLES = Suc 1558" by (simp add: NUMBER_OF_TESTING_SAMPLES_def)
  have two: "\<forall>i<NUMBER_OF_TESTING_SAMPLES. c2 ! i ! 0 = 2"
    using vals scan_rows_one_two_label [of _ 1558 "u_tmp_testing ?u"] unfolding n by simp
  have labels: "\<forall>i<NUMBER_OF_TESTING_SAMPLES. \<exists>l. at_get c2 i 0 = Some l
      \<and> 0 < l \<and> l < real NUMBER_OF_CLASSES + 1"
    using two at_get_dims [OF dims(2), of _ 0] by (simp add: NUMBER_OF_CLASSES_def)
  have len: "length (false_positives (initial_tally ?u)) = NUMBER_OF_CLASSES"
    by (simp add: initial_tally_eq)
  have "NUMBER_OF_TESTING_SAMPLES \<le> length d2" using dims(1) by (simp add: mat_dims_nth)
  from testing_loop_inv [OF this labels len, of 0 "svm_const 1"
         "train_auto (svm_const 1) d1 c1 default_params 10"]
  obtain st where "testing_loop (svm_const 1) (train_auto (svm_const 1) d1 c1 default_params 10) d2 c2
                      NUMBER_OF_TESTING_SAMPLES 0 (initial_tally ?u) = Some st"
    by auto
  then show "\<exists>ev. main (svm_const 1) ?fs ?u ''train.csv'' ''test.csv'' = Some (0, ev)"
    unfolding m by simp
qed




section \<open>The trainer\<close>

lemma cross_validate_train_winner:
  assumes "C_grid \<noteq> []"
  shows "\<exists>winner\<in>set C_grid.
      (\<forall>c\<in>set C_grid. cv_error opt (nat folds) features labels (config\<lparr>p_C := winner\<rparr>)
                         \<le> cv_error opt (nat folds) features labels (config\<lparr>p_C := c\<rparr>))
    \<and> cross_validate_train opt C_grid features labels config folds
        = (fit opt features labels (config\<lparr>p_C := winner\<rparr>), config\<lparr>p_C := winner\<rparr>)"
proof -
  let ?err = "\<lambda>c. cv_error opt (nat folds) features labels (config\<lparr>p_C := c\<rparr>)"
  let ?w = "arg_min_list ?err C_grid"
  have "?w \<in> set C_grid" using assms by (rule arg_min_list_in)
  moreover have "\<forall>c\<in>set C_grid. ?err ?w \<le> ?err c"
    using f_arg_min_list_f [OF assms, of ?err] by simp
  moreover have "cross_validate_train opt C_grid features labels config folds
        = (fit opt features labels (config\<lparr>p_C := ?w\<rparr>), config\<lparr>p_C := ?w\<rparr>)"
    using assms by (simp add: cross_validate_train_def Let_def)
  ultimately show ?thesis by blast
qed

text \<open>
  Claim C7. The program is compiled for grid search. When both files open, \<open>main\<close> asks
  the trainer (as the specification describes it) for cross-validation with \<open>10\<close> folds,
  passing the parameter block with the linear kernel. The trainer selects, among the
  values of the grid, one whose 10-fold cross-validation error is lowest, and changes
  nothing else in the configuration: the kernel stays linear. What \<open>main\<close> then prints
  as the parameters is the configuration read back from the trained classifier, which
  is the parameter block with \<open>C\<close> replaced by the winning value; and the number of
  support vectors it prints is the one the trained classifier reports, which is not
  negative.
\<close>

theorem grid_search_training:
  assumes "fs argv1 = Some content1" "fs argv2 = Some content2" "C_grid \<noteq> []"
  shows "\<exists>d1 c1 d2 c2 winner model.
      USE_OPENCV_GRID_SEARCH_AUTOTRAIN \<noteq> 0
    \<and> read_data_from_csv fs argv1
         (Mat_new NUMBER_OF_TRAINING_SAMPLES ATTRIBUTES_PER_SAMPLE (u_training_data u))
         (Mat_new NUMBER_OF_TRAINING_SAMPLES 1 (u_training_classifications u))
         (int NUMBER_OF_TRAINING_SAMPLES) (u_tmp_training u)
        = Some (1, d1, c1, [Fopen argv1 True, Fclose argv1])
    \<and> winner \<in> set C_grid
    \<and> (\<forall>c\<in>set C_grid. cv_error opt 10 d1 c1 (default_params\<lparr>p_C := winner\<rparr>)
                         \<le> cv_error opt 10 d1 c1 (default_params\<lparr>p_C := c\<rparr>))
    \<and> model = train_auto (spec_CvSVM opt C_grid) d1 c1 default_params 10
    \<and> model = (fit opt d1 c1 (default_params\<lparr>p_C := winner\<rparr>), default_params\<lparr>p_C := winner\<rparr>)
    \<and> get_params (spec_CvSVM opt C_grid) model = default_params\<lparr>p_C := winner\<rparr>
    \<and> p_kernel_type (get_params (spec_CvSVM opt C_grid) model) = LINEAR
    \<and> 0 \<le> get_support_vector_count (spec_CvSVM opt C_grid) model
    \<and> main (spec_CvSVM opt C_grid) fs u argv1 argv2 =
        (case testing_loop (spec_CvSVM opt C_grid) model d2 c2
                NUMBER_OF_TESTING_SAMPLES 0 (initial_tally u) of
           None \<Rightarrow> None
         | Some st \<Rightarrow>
             Some (0, [Fopen argv1 True, Fclose argv1, Fopen argv2 True, Fclose argv2,
                       Train_auto d1 c1 default_params 10,
                       Print_params (get_params (spec_CvSVM opt C_grid) model),
                       Print_support_vectors (get_support_vector_count (spec_CvSVM opt C_grid) model)]
                      @ report st (snd (initial_counters u))))"
proof -
  let ?svm = "spec_CvSVM opt C_grid"
  from main_both_opened [where fs = fs and ?argv1.0 = argv1 and ?argv2.0 = argv2, OF assms(1,2), of u ?svm]
  obtain d1 c1 d2 c2 where m:
    "read_data_from_csv fs argv1
         (Mat_new NUMBER_OF_TRAINING_SAMPLES ATTRIBUTES_PER_SAMPLE (u_training_data u))
         (Mat_new NUMBER_OF_TRAINING_SAMPLES 1 (u_training_classifications u))
         (int NUMBER_OF_TRAINING_SAMPLES) (u_tmp_training u)
        = Some (1, d1, c1, [Fopen argv1 True, Fclose argv1])"
    "main ?svm fs u argv1 argv2 =
        (case testing_loop ?svm (train_auto ?svm d1 c1 default_params 10) d2 c2
                NUMBER_OF_TESTING_SAMPLES 0 (initial_tally u) of
           None \<Rightarrow> None
         | Some st \<Rightarrow>
             Some (0, [Fopen argv1 True, Fclose argv1, Fopen argv2 True, Fclose argv2,
                       Train_auto d1 c1 default_params 10,
                       Print_params (get_params ?svm (train_auto ?svm d1 c1 default_params 10)),
                       Print_support_vectors
                         (get_support_vector_count ?svm (train_auto ?svm d1 c1 default_params 10))]
                      @ report st (snd (initial_counters u))))"
    by blast
  from cross_validate_train_winner [OF assms(3), of opt 10 d1 c1 default_params]
  obtain winner where w: "winner \<in> set C_grid"
    "\<forall>c\<in>set C_grid. cv_error opt 10 d1 c1 (default_params\<lparr>p_C := winner\<rparr>)
                         \<le> cv_error opt 10 d1 c1 (default_params\<lparr>p_C := c\<rparr>)"
    "cross_validate_train opt C_grid d1 c1 default_params 10
        = (fit opt d1 c1 (default_params\<lparr>p_C := winner\<rparr>), default_params\<lparr>p_C := winner\<rparr>)"
    by auto
  let ?model = "train_auto ?svm d1 c1 default_params 10"
  have model: "?model = (fit opt d1 c1 (default_params\<lparr>p_C := winner\<rparr>), default_params\<lparr>p_C := winner\<rparr>)"
    using w(3) by (simp add: spec_CvSVM_def)
  have params: "get_params ?svm ?model = default_params\<lparr>p_C := winner\<rparr>"
    unfolding model by (simp add: spec_CvSVM_def)
  have kernel: "p_kernel_type (get_params ?svm ?model) = LINEAR"
    unfolding params by (simp add: default_params_def)
  have count: "0 \<le> get_support_vector_count ?svm ?model"
    by (simp add: spec_CvSVM_def)
  have mode: "USE_OPENCV_GRID_SEARCH_AUTOTRAIN \<noteq> 0"
    by (simp add: USE_OPENCV_GRID_SEARCH_AUTOTRAIN_def)
  show ?thesis
    by (intro exI [of _ d1] exI [of _ c1] exI [of _ d2] exI [of _ c2] exI [of _ winner]
          exI [of _ ?model] conjI)
       (rule mode m(1) w(1) w(2) refl model params kernel count m(2))+
qed

theorem grid_search_training_witness:
  "\<exists>d1 c1 winner.
      read_data_from_csv [''train.csv'' \<mapsto> ''1,2,'', ''test.csv'' \<mapsto> ''1,2,''] ''train.csv''
         (Mat_new NUMBER_OF_TRAINING_SAMPLES ATTRIBUTES_PER_SAMPLE (u_training_data (indet 0 0)))
         (Mat_new NUMBER_OF_TRAINING_SAMPLES 1 (u_training_classifications (indet 0 0)))
         (int NUMBER_OF_TRAINING_SAMPLES) (u_tmp_training (indet 0 0))
        = Some (1, d1, c1, [Fopen ''train.csv'' True, Fclose ''train.csv''])
    \<and> winner \<in> {1 / 10, 1, 10}
    \<and> get_params (spec_CvSVM (opt_const 2) [1 / 10, 1, 10])
         (train_auto (spec_CvSVM (opt_const 2) [1 / 10, 1, 10]) d1 c1 default_params 10)
        = default_params\<lparr>p_C := winner\<rparr>
    \<and> get_support_vector_count (spec_CvSVM (opt_const 2) [1 / 10, 1, 10])
         (train_auto (spec_CvSVM (opt_const 2) [1 / 10, 1, 10]) d1 c1 default_params 10) = 1"
proof -
  let ?fs = "[''train.csv'' \<mapsto> ''1,2,'', ''test.csv'' \<mapsto> ''1,2,'']"
  let ?grid = "[1 / 10, 1, 10 :: real]"
  let ?svm = "spec_CvSVM (opt_const 2) ?grid"
  have f1: "?fs ''train.csv'' = Some ''1,2,''" and f2: "?fs ''test.csv'' = Some ''1,2,''"
    and g: "?grid \<noteq> []"
    by simp_all
  from grid_search_training [where fs = ?fs and ?argv1.0 = "''train.csv''" and ?argv2.0 = "''test.csv''"
         and C_grid = ?grid and opt = "opt_const 2" and u = "indet 0 0", OF f1 f2 g]
  obtain d1 c1 winner model where r:
    "read_data_from_csv ?fs ''train.csv''
         (Mat_new NUMBER_OF_TRAINING_SAMPLES ATTRIBUTES_PER_SAMPLE (u_training_data (indet 0 0)))
         (Mat_new NUMBER_OF_TRAINING_SAMPLES 1 (u_training_classifications (indet 0 0)))
         (int NUMBER_OF_TRAINING_SAMPLES) (u_tmp_training (indet 0 0))
        = Some (1, d1, c1, [Fopen ''train.csv'' True, Fclose ''train.csv''])"
    "winner \<in> set ?grid"
    "model = train_auto ?svm d1 c1 default_params 10"
    "model = (fit (opt_const 2) d1 c1 (default_params\<lparr>p_C := winner\<rparr>), default_params\<lparr>p_C := winner\<rparr>)"
    "get_params ?svm model = default_params\<lparr>p_C := winner\<rparr>"
    by blast
  have w: "winner \<in> {1 / 10, 1, 10}" using r(2) by simp
  have p: "get_params ?svm (train_auto ?svm d1 c1 default_params 10) = default_params\<lparr>p_C := winner\<rparr>"
    using r(5) unfolding r(3) .
  have "get_support_vector_count ?svm model = 1"
    unfolding r(4) by (simp add: spec_CvSVM_def opt_const_def)
  then have sv: "get_support_vector_count ?svm (train_auto ?svm d1 c1 default_params 10) = 1"
    unfolding r(3) .
  show ?thesis
    by (intro exI [of _ d1] exI [of _ c1] exI [of _ winner] conjI) (rule r(1) w p sv)+
qed

end
